(* ===== verification/Prelude.thy ===== *)
theory Prelude
  imports Main "HOL-Library.Word"
begin

text \<open>
  The shared base of the development: the types that model Go's machine integers, byte slices,
  strings and errors, the error monad, and the generic lemmas the components use.

  A Go \<open>string\<close> is an immutable sequence of bytes, so it is modelled by \<^typ>\<open>string\<close> (a list of
  8-bit characters); a \<open>[]byte\<close> is a list of 8-bit words.  \<open>to_bytes\<close> and \<open>of_bytes\<close> are the
  conversions \<open>[]byte(s)\<close> and \<open>string(b)\<close>.  An \<open>error\<close> value is a \<open>go_error\<close>; Go's \<open>nil\<close> error is
  \<open>None\<close>; a pair \<open>(value, error)\<close> of which the caller uses only one side is a \<open>'a result\<close>.
\<close>

named_theorems codec_simps \<open>rewriting of encoders and decoders to lists of bytes\<close>
named_theorems stream_simps \<open>what reading from a stream yields, in terms of its whole contents\<close>
named_theorems http_simps \<open>equations of the response-writer operations\<close>

subsection \<open>Machine types\<close>

type_synonym byte = "8 word"
type_synonym u8 = "8 word"
type_synonym u16 = "16 word"
type_synonym u32 = "32 word"
type_synonym i32 = "32 word"

text \<open>\<open>time.Duration\<close> is a count of nanoseconds; the code only compares and forwards it.\<close>

type_synonym duration = int

definition second :: duration where
  "second = 1000000000"

definition newline :: string where
  "newline = [CHR 0x0A]"

subsection \<open>Errors and results\<close>

text \<open>
  \<open>EOF\<close> and \<open>UnexpectedEOF\<close> are the sentinel values of package io, \<open>Timeout\<close> is a \<open>net.Error\<close>
  whose \<open>Timeout()\<close> is true, \<open>ErrText\<close> is any other error with its message
  (\<open>errors.New\<close>, \<open>fmt.Errorf\<close>), and \<open>Wrapped\<close> is \<open>fmt.Errorf\<close> with \<open>%w\<close>.
\<close>

datatype go_error =
    EOF
  | UnexpectedEOF
  | Timeout
  | ErrText string
  | Wrapped string go_error

type_synonym 'a result = "go_error + 'a"

definition bind_res :: "'a result \<Rightarrow> ('a \<Rightarrow> 'b result) \<Rightarrow> 'b result" where
  "bind_res m k = (case m of Inl e \<Rightarrow> Inl e | Inr x \<Rightarrow> k x)"

lemma bind_res_simps [simp]:
  "bind_res (Inl e) k = Inl e"
  "bind_res (Inr x) k = k x"
  by (simp_all add: bind_res_def)

lemma bind_res_Inr_iff: "bind_res m k = Inr y \<longleftrightarrow> (\<exists>x. m = Inr x \<and> k x = Inr y)"
  by (cases m) auto

subsection \<open>Bytes and strings\<close>

definition byte_of :: "char \<Rightarrow> byte" where
  "byte_of c = of_nat (of_char c)"

definition char_of_byte :: "byte \<Rightarrow> char" where
  "char_of_byte b = char_of (unat b)"

definition to_bytes :: "string \<Rightarrow> byte list" where
  "to_bytes s = map byte_of s"

definition of_bytes :: "byte list \<Rightarrow> string" where
  "of_bytes b = map char_of_byte b"

definition NUL :: char where
  "NUL = CHR 0x00"

lemma char_of_byte_of [simp]: "char_of_byte (byte_of c) = c"
  by (simp add: char_of_byte_def byte_of_def unat_of_nat)

lemma byte_of_char_of_byte [simp]: "byte_of (char_of_byte b) = b"
proof -
  have "unat b < 256" using unsigned_less [of b] by simp
  then show ?thesis by (simp add: char_of_byte_def byte_of_def)
qed

lemma of_bytes_to_bytes [simp]: "of_bytes (to_bytes s) = s"
  by (simp add: of_bytes_def to_bytes_def comp_def)

lemma to_bytes_of_bytes [simp]: "to_bytes (of_bytes b) = b"
  by (simp add: of_bytes_def to_bytes_def comp_def)

lemma byte_of_eq_iff [simp]: "byte_of c = byte_of d \<longleftrightarrow> c = d"
  by (metis char_of_byte_of)

lemma char_of_byte_eq_iff [simp]: "char_of_byte a = char_of_byte b \<longleftrightarrow> a = b"
  by (metis byte_of_char_of_byte)

lemma byte_of_NUL [simp]: "byte_of NUL = 0"
  by (simp add: byte_of_def NUL_def)

lemma char_of_byte_0 [simp]: "char_of_byte 0 = NUL"
  by (metis byte_of_NUL char_of_byte_of)

lemma to_bytes_simps [simp]:
  "to_bytes [] = []"
  "to_bytes (c # s) = byte_of c # to_bytes s"
  "to_bytes (s @ t) = to_bytes s @ to_bytes t"
  "length (to_bytes s) = length s"
  by (simp_all add: to_bytes_def)

lemma of_bytes_simps [simp]:
  "of_bytes [] = []"
  "of_bytes (x # b) = char_of_byte x # of_bytes b"
  "of_bytes (a @ b) = of_bytes a @ of_bytes b"
  "length (of_bytes b) = length b"
  by (simp_all add: of_bytes_def)

lemma of_bytes_eq_Nil [simp]: "of_bytes b = [] \<longleftrightarrow> b = []"
  by (simp add: of_bytes_def)

lemma to_bytes_eq_Nil [simp]: "to_bytes s = [] \<longleftrightarrow> s = []"
  by (simp add: to_bytes_def)

lemma zero_in_to_bytes [simp]: "0 \<in> set (to_bytes s) \<longleftrightarrow> NUL \<in> set s"
  by (induction s) (auto, (metis byte_of_NUL byte_of_eq_iff)+)

lemma NUL_in_of_bytes [simp]: "NUL \<in> set (of_bytes b) \<longleftrightarrow> 0 \<in> set b"
  by (metis to_bytes_of_bytes zero_in_to_bytes)

subsection \<open>Lists\<close>

text \<open>What \<open>conn.Read(buf)\<close> leaves in \<open>buf\<close>: the datagram over the buffer's old contents.\<close>

definition overlay :: "'a list \<Rightarrow> 'a list \<Rightarrow> 'a list" where
  "overlay p buf = take (length buf) p @ drop (length p) buf"

lemma length_overlay [simp]: "length (overlay p buf) = length buf"
  by (simp add: overlay_def)

lemma overlay_fits: "length p \<le> length buf \<Longrightarrow> overlay p buf = p @ drop (length p) buf"
  by (simp add: overlay_def)

lemma overlay_replicate:
  "length p \<le> n \<Longrightarrow> overlay p (replicate n x) = p @ replicate (n - length p) x"
  by (simp add: overlay_def)

lemma takeWhile_append_stop: "P x = False \<Longrightarrow> \<forall>y\<in>set xs. P y \<Longrightarrow> takeWhile P (xs @ x # ys) = xs"
  by (simp add: takeWhile_tail)

lemma dropWhile_append_stop: "P x = False \<Longrightarrow> \<forall>y\<in>set xs. P y \<Longrightarrow> dropWhile P (xs @ x # ys) = x # ys"
  by (simp add: dropWhile_append3)

lemma remdups_adj_replicate_append:
  assumes "n > 0" and "ys = [] \<or> hd ys \<noteq> x"
  shows "remdups_adj (replicate n x @ ys) = x # remdups_adj ys"
  using assms
proof (induction n)
  case 0
  then show ?case by simp
next
  case (Suc n)
  then show ?case by (cases n; cases ys) auto
qed

end
