(* ===== verification/GoBinary.thy ===== *)
theory GoBinary
  imports Prelude
begin

unbundle bit_operations_syntax

text \<open>
  The parts of Go's standard library that the codecs use on in-memory byte slices:
  \<open>encoding/binary\<close> in big-endian order (\<open>put_be16\<close>, \<open>be16\<close>, \<open>put_be32\<close>, \<open>be32\<close>, written with the
  shifts of \<open>binary.BigEndian\<close>), \<open>binary.Read\<close> of an unsigned 16-bit value from a
  \<open>bytes.Reader\<close> or \<open>bytes.Buffer\<close> (\<open>read_u16\<close>), \<open>Buffer.ReadString\<close> (\<open>read_string\<close>), and
  \<open>strings.TrimRight(s, "\x00")\<close> (\<open>trim_right_nul\<close>).  Each reading function returns what it
  read and the bytes that remain.  Last comes the interface of a packet format whose packets
  are recognised from their front, whatever bytes follow.
\<close>

subsection \<open>Big-endian integers\<close>

definition put_be16 :: "u16 \<Rightarrow> byte list" where
  "put_be16 v = [ucast (drop_bit 8 v), ucast v]"

definition be16 :: "byte \<Rightarrow> byte \<Rightarrow> u16" where
  "be16 hi lo = ucast lo OR push_bit 8 (ucast hi)"

definition put_be32 :: "u32 \<Rightarrow> byte list" where
  "put_be32 v = [ucast (drop_bit 24 v), ucast (drop_bit 16 v), ucast (drop_bit 8 v), ucast v]"

definition be32 :: "byte \<Rightarrow> byte \<Rightarrow> byte \<Rightarrow> byte \<Rightarrow> u32" where
  "be32 b0 b1 b2 b3 = ucast b3 OR push_bit 8 (ucast b2) OR push_bit 16 (ucast b1) OR push_bit 24 (ucast b0)"

lemma byte_bit_length: "bit (b :: byte) n \<Longrightarrow> n < 8"
  using bit_imp_le_length [of b n] by simp

lemma byte_bit_beyond: "\<not> bit (b :: byte) (8 + n)" "\<not> bit (b :: byte) (16 + n)" "\<not> bit (b :: byte) (24 + n)"
  using byte_bit_length [of b] by fastforce+

lemma be16_put [codec_simps]: "be16 (ucast (drop_bit 8 v)) (ucast v) = v"
  by (rule bit_word_eqI) (auto simp: be16_def bit_simps not_less)

lemma put_be16_be16 [codec_simps]: "put_be16 (be16 hi lo) = [hi, lo]"
  by (auto simp: put_be16_def be16_def bit_simps byte_bit_beyond intro!: bit_word_eqI )

lemma be32_put [codec_simps]:
  "be32 (ucast (drop_bit 24 v)) (ucast (drop_bit 16 v)) (ucast (drop_bit 8 v)) (ucast v) = v"
proof (rule bit_word_eqI)
  fix n
  assume "n < LENGTH(32)"
  then consider "n < 8" | "8 \<le> n" "n < 16" | "16 \<le> n" "n < 24" | "24 \<le> n" "n < 32"
    by fastforce
  then show "bit (be32 (ucast (drop_bit 24 v)) (ucast (drop_bit 16 v)) (ucast (drop_bit 8 v)) (ucast v)) n
      = bit v n"
    by cases (auto simp: be32_def bit_simps)
qed

lemma put_be32_be32 [codec_simps]: "put_be32 (be32 b0 b1 b2 b3) = [b0, b1, b2, b3]"
  by (auto simp: put_be32_def be32_def bit_simps byte_bit_beyond intro!: bit_word_eqI )

lemma length_put_be16 [simp]: "length (put_be16 v) = 2"
  by (simp add: put_be16_def)

lemma length_put_be32 [simp]: "length (put_be32 v) = 4"
  by (simp add: put_be32_def)

lemma put_be16_inj [simp]: "put_be16 v = put_be16 w \<longleftrightarrow> v = w"
  by (metis be16_put list.inject put_be16_def)

lemma put_be32_inj [simp]: "put_be32 v = put_be32 w \<longleftrightarrow> v = w"
proof
  assume "put_be32 v = put_be32 w"
  then have "be32 (ucast (drop_bit 24 v)) (ucast (drop_bit 16 v)) (ucast (drop_bit 8 v)) (ucast v) =
      be32 (ucast (drop_bit 24 w)) (ucast (drop_bit 16 w)) (ucast (drop_bit 8 w)) (ucast w)"
    by (simp only: put_be32_def list.inject)
  then show "v = w" by (simp only: be32_put)
qed simp

subsection \<open>Writing to a byte buffer\<close>

text \<open>
  Every write to a \<open>bytes.Buffer\<close> appends and returns a nil error; the codecs still test it, and
  the model keeps the test.
\<close>

definition buf_write :: "byte list \<Rightarrow> byte list \<Rightarrow> byte list result" where
  "buf_write b p = Inr (b @ p)"

lemma buf_write_simp [codec_simps, simp]: "buf_write b p = Inr (b @ p)"
  by (simp add: buf_write_def)

subsection \<open>Reading from a byte buffer\<close>

text \<open>
  \<open>binary.Read\<close> reads exactly two bytes with \<open>io.ReadFull\<close>: no byte at all is \<open>io.EOF\<close>, one
  byte only is \<open>io.ErrUnexpectedEOF\<close>, and the byte is consumed.
\<close>

fun read_u16 :: "byte list \<Rightarrow> u16 result \<times> byte list" where
  "read_u16 [] = (Inl EOF, [])"
| "read_u16 [b] = (Inl UnexpectedEOF, [])"
| "read_u16 (hi # lo # r) = (Inr (be16 hi lo), r)"

lemma read_u16_put [codec_simps]: "read_u16 (put_be16 v @ r) = (Inr v, r)"
  by (simp add: put_be16_def be16_put)

lemma read_u16_Inr: "read_u16 p = (Inr v, r) \<longleftrightarrow> p = put_be16 v @ r"
proof
  assume "read_u16 p = (Inr v, r)"
  then show "p = put_be16 v @ r"
    by (cases p rule: read_u16.cases) (auto simp: put_be16_be16)
qed (simp add: read_u16_put)

lemma read_u16_long: "2 \<le> length p \<Longrightarrow> \<exists>v r. read_u16 p = (Inr v, r)"
  by (cases p rule: read_u16.cases) auto

text \<open>
  \<open>ReadString(delim)\<close> returns everything up to and including the first delimiter; without one
  it returns all that is left together with \<open>io.EOF\<close>.
\<close>

definition read_string :: "byte \<Rightarrow> byte list \<Rightarrow> byte list \<times> byte list \<times> go_error option" where
  "read_string d b =
     (case dropWhile (\<lambda>x. x \<noteq> d) b of
        [] \<Rightarrow> (b, [], Some EOF)
      | x # r \<Rightarrow> (takeWhile (\<lambda>x. x \<noteq> d) b @ [x], r, None))"

lemma read_string_found [codec_simps]:
  "d \<notin> set s \<Longrightarrow> read_string d (s @ d # r) = (s @ [d], r, None)"
proof -
  assume "d \<notin> set s"
  then have "\<forall>y\<in>set s. y \<noteq> d" by auto
  then show ?thesis
    by (simp add: read_string_def takeWhile_append_stop dropWhile_append_stop)
qed

lemma read_string_missing [codec_simps]: "d \<notin> set b \<Longrightarrow> read_string d b = (b, [], Some EOF)"
proof -
  assume "d \<notin> set b"
  then have "dropWhile (\<lambda>x. x \<noteq> d) b = []" by auto
  then show ?thesis by (simp only: read_string_def list.case)
qed

lemma read_string_cases:
  obtains (found) s r where "b = s @ d # r" "d \<notin> set s" "read_string d b = (s @ [d], r, None)"
  | (missing) "d \<notin> set b" "read_string d b = (b, [], Some EOF)"
proof (cases "d \<in> set b")
  case True
  then obtain s r where "b = s @ d # r" "d \<notin> set s" by (meson split_list_first)
  then show ?thesis using found read_string_found by blast
next
  case False
  then show ?thesis using missing read_string_missing by blast
qed

definition trim_right_nul :: "string \<Rightarrow> string" where
  "trim_right_nul s = rev (dropWhile (\<lambda>c. c = NUL) (rev s))"

lemma trim_right_nul_snoc [simp]: "trim_right_nul (s @ [NUL]) = trim_right_nul s"
  by (simp add: trim_right_nul_def)

lemma trim_right_nul_id [simp]: "NUL \<notin> set s \<Longrightarrow> trim_right_nul s = s"
proof -
  assume "NUL \<notin> set s"
  then have "dropWhile (\<lambda>c. c = NUL) (rev s) = rev s"
    by (simp add: dropWhile_eq_self_iff) (metis hd_in_set rev_is_Nil_conv set_rev)
  then show ?thesis by (simp add: trim_right_nul_def)
qed

lemma trim_right_nul_read [simp]: "0 \<notin> set b \<Longrightarrow> trim_right_nul (of_bytes b @ [NUL]) = of_bytes b"
  by simp

subsection \<open>Formats recognised from their front\<close>

text \<open>
  \<open>encoding.BinaryMarshaler\<close> and \<open>encoding.BinaryUnmarshaler\<close> as the TFTP server uses them: it
  hands the whole receive buffer to \<open>UnmarshalBinary\<close>, not the bytes received, so a packet is
  recognised in front of whatever the buffer held before.  \<open>valid\<close> says which packets
  marshal to something that reads back, \<open>unmarshal x p\<close> is the receiver after the call and
  the error.
\<close>

locale front_codec =
  fixes marshal :: "'p \<Rightarrow> byte list result"
    and unmarshal :: "'p \<Rightarrow> byte list \<Rightarrow> 'p \<times> go_error option"
    and valid :: "'p \<Rightarrow> bool"
  assumes marshal_total: "\<exists>b. marshal x = Inr b"
    and unmarshal_marshal: "valid x \<Longrightarrow> marshal x = Inr b \<Longrightarrow> unmarshal y (b @ junk) = (x, None)"
begin

lemma unmarshal_exact: "valid x \<Longrightarrow> marshal x = Inr b \<Longrightarrow> unmarshal y b = (x, None)"
  using unmarshal_marshal [where junk = "[]"] by simp

lemma unmarshal_overlay:
  "valid x \<Longrightarrow> marshal x = Inr b \<Longrightarrow> length b \<le> length buf \<Longrightarrow>
    unmarshal y (overlay b buf) = (x, None)"
  by (simp add: overlay_fits unmarshal_marshal)

lemma marshal_prefix_free:
  assumes "valid x" "valid y" "marshal x = Inr a" "marshal y = Inr b" "a @ c = b @ d"
  shows "x = y"
  using unmarshal_marshal [OF assms(1,3), of x c] unmarshal_marshal [OF assms(2,4), of x d] assms(5)
  by simp

lemma marshal_inj: "valid x \<Longrightarrow> valid y \<Longrightarrow> marshal x = marshal y \<Longrightarrow> x = y"
  using marshal_total [of x] marshal_prefix_free [of x y _ _ "[]" "[]"] by auto

end

end
