(* ===== verification/GoIO.thy ===== *)
theory GoIO
  imports GoBinary
begin

text \<open>
  The \<open>io.Reader\<close> and \<open>io.Writer\<close> values the components are handed, and the functions of
  package io they call on them.

  A \<open>reader\<close> is the stream its successive \<open>Read\<close> calls deliver: \<open>chunks\<close> is the data in the
  pieces in which it arrives (TCP segments, disk reads; one \<open>Read\<close> never returns more than the
  piece at the front, which is how short reads happen), and \<open>fin\<close> is the error after the last
  piece, \<open>EOF\<close> or another.  Data and an error never come together: \<open>io.Reader\<close> allows it, and a TLS
  connection may do it at its end, but it is not represented.  \<open>end_first\<close> tells the readers that
  report the end even for an empty destination (\<open>bytes.Reader\<close>) from those that then return
  \<open>0, nil\<close> (a \<open>net.Conn\<close>, a \<open>bytes.Buffer\<close>).

  A \<open>writer\<close> records the bytes it has accepted; \<open>script\<close> holds the outcomes of its next \<open>Write\<close>
  calls (\<open>None\<close>: all accepted; \<open>Some (k, e)\<close>: at most \<open>k\<close> bytes, then the error \<open>e\<close>), and a writer
  whose script is used up accepts everything.
\<close>

subsection \<open>Readers\<close>

record reader =
  chunks :: "byte list list"
  fin :: go_error
  end_first :: bool

definition stream :: "reader \<Rightarrow> byte list" where
  "stream r = concat (chunks r)"

definition bytes_reader :: "byte list \<Rightarrow> reader" where
  "bytes_reader p = \<lparr>chunks = (if p = [] then [] else [p]), fin = EOF, end_first = True\<rparr>"

text \<open>One call \<open>r.Read(p)\<close> with \<open>len(p) = n\<close>: the reader after it, the bytes read, the error.\<close>

definition rd_read :: "nat \<Rightarrow> reader \<Rightarrow> reader \<times> byte list \<times> go_error option" where
  "rd_read n r =
     (case chunks r of
        [] \<Rightarrow> (r, [], if n = 0 \<and> \<not> end_first r then None else Some (fin r))
      | c # cs \<Rightarrow>
          (r\<lparr>chunks := (if length c \<le> n then cs else drop n c # cs)\<rparr>, take n c, None))"

text \<open>The pieces that make up the next \<open>n\<close> bytes: the loop of \<open>io.ReadFull\<close> and \<open>io.CopyN\<close>.\<close>

fun take_chunks :: "nat \<Rightarrow> byte list list \<Rightarrow> byte list \<times> byte list list" where
  "take_chunks 0 cs = ([], cs)"
| "take_chunks n [] = ([], [])"
| "take_chunks n (c # cs) =
     (if length c \<le> n then (let (b, cs') = take_chunks (n - length c) cs in (c @ b, cs'))
      else (take n c, drop n c # cs))"

text \<open>
  \<open>io.ReadFull(r, buf)\<close> with \<open>len(buf) = n\<close>, as \<open>binary.Read\<close> calls it: all \<open>n\<close> bytes, or an error,
  which is \<open>io.ErrUnexpectedEOF\<close> when the stream ended after some but not all bytes.
\<close>

definition read_full :: "nat \<Rightarrow> reader \<Rightarrow> reader \<times> byte list result" where
  "read_full n r =
     (let (b, cs) = take_chunks n (chunks r); r' = r\<lparr>chunks := cs\<rparr> in
      if length b = n then (r', Inr b)
      else if b \<noteq> [] \<and> fin r = EOF then (r', Inl UnexpectedEOF)
      else (r', Inl (fin r)))"

text \<open>\<open>io.CopyN(dst, r, n)\<close> into a \<open>bytes.Buffer\<close>: the bytes appended to it, and the error.\<close>

definition copy_n :: "nat \<Rightarrow> reader \<Rightarrow> reader \<times> byte list \<times> go_error option" where
  "copy_n n r =
     (let (b, cs) = take_chunks n (chunks r) in
      (r\<lparr>chunks := cs\<rparr>, b, if length b = n then None else Some (fin r)))"

text \<open>\<open>io.ReadAll(r)\<close>: everything up to the end; an end other than \<open>EOF\<close> is its error.\<close>

definition read_all :: "reader \<Rightarrow> reader \<times> byte list \<times> go_error option" where
  "read_all r = (r\<lparr>chunks := []\<rparr>, stream r, if fin r = EOF then None else Some (fin r))"

text \<open>\<open>io.MultiReader(bytes.NewReader(p), r)\<close>: the bytes of \<open>p\<close>, then those of \<open>r\<close>.\<close>

definition multi_reader :: "byte list \<Rightarrow> reader \<Rightarrow> reader" where
  "multi_reader p r = r\<lparr>chunks := chunks (bytes_reader p) @ chunks r\<rparr>"

lemma take_chunks_stream:
  "fst (take_chunks n cs) = take n (concat cs)"
  "concat (snd (take_chunks n cs)) = drop n (concat cs)"
  by (induction n cs rule: take_chunks.induct) (auto split: prod.splits)

lemma take_chunksE:
  obtains cs' where "take_chunks n cs = (take n (concat cs), cs')" "concat cs' = drop n (concat cs)"
  using take_chunks_stream [of n cs] by (cases "take_chunks n cs") auto

lemma take_chunks_front: "p \<noteq> [] \<Longrightarrow> take_chunks (length p) (p # cs) = (p, cs)"
  by (cases "length p") auto

lemma stream_bytes_reader [stream_simps, simp]: "stream (bytes_reader p) = p"
  by (simp add: stream_def bytes_reader_def)

lemma fin_bytes_reader [simp]: "fin (bytes_reader p) = EOF"
  by (simp add: bytes_reader_def)

lemma stream_multi_reader [stream_simps, simp]: "stream (multi_reader p r) = p @ stream r"
  by (simp add: stream_def multi_reader_def bytes_reader_def)

lemma fin_multi_reader [simp]: "fin (multi_reader p r) = fin r"
  by (simp add: multi_reader_def)

lemma read_full_ok:
  assumes "n \<le> length (stream r)"
  obtains r' where "read_full n r = (r', Inr (take n (stream r)))" "stream r' = drop n (stream r)"
    "fin r' = fin r" "end_first r' = end_first r"
proof -
  obtain cs where cs: "take_chunks n (chunks r) = (take n (stream r), cs)"
    "concat cs = drop n (stream r)"
    unfolding stream_def by (rule take_chunksE)
  show ?thesis
    by (rule that [of "r\<lparr>chunks := cs\<rparr>"]) (use assms cs in \<open>auto simp: read_full_def stream_def\<close>)
qed

lemma read_full_short [stream_simps]:
  assumes "length (stream r) < n"
  shows "snd (read_full n r) =
    Inl (if stream r \<noteq> [] \<and> fin r = EOF then UnexpectedEOF else fin r)"
    "stream (fst (read_full n r)) = []"
proof -
  obtain cs where cs: "take_chunks n (chunks r) = (take n (stream r), cs)"
    "concat cs = drop n (stream r)"
    unfolding stream_def by (rule take_chunksE)
  with assms show "snd (read_full n r) =
      Inl (if stream r \<noteq> [] \<and> fin r = EOF then UnexpectedEOF else fin r)"
    "stream (fst (read_full n r)) = []"
    by (auto simp: read_full_def stream_def Let_def split: if_splits)
qed

lemma copy_n_stream:
  obtains r' where "copy_n n r = (r', take n (stream r), if n \<le> length (stream r) then None else Some (fin r))"
    "stream r' = drop n (stream r)" "fin r' = fin r"
proof -
  obtain cs where cs: "take_chunks n (chunks r) = (take n (stream r), cs)"
    "concat cs = drop n (stream r)"
    unfolding stream_def by (rule take_chunksE)
  show ?thesis
    by (rule that [of "r\<lparr>chunks := cs\<rparr>"]) (use cs in \<open>auto simp: copy_n_def stream_def min_def\<close>)
qed

lemma stream_rd_read:
  "stream r = fst (snd (rd_read n r)) @ stream (fst (rd_read n r))"
  by (auto simp: rd_read_def stream_def split: list.splits)

lemma length_rd_read: "length (fst (snd (rd_read n r))) \<le> n"
  by (auto simp: rd_read_def split: list.splits)

lemma read_all_drains [stream_simps]: "stream (fst (read_all r)) = []"
  by (simp add: read_all_def stream_def)

subsection \<open>Writers\<close>

record writer =
  accepted :: "byte list"
  script :: "(nat \<times> go_error) option list"

definition new_writer :: writer where
  "new_writer = \<lparr>accepted = [], script = []\<rparr>"

text \<open>
  One call \<open>w.Write(p)\<close>: the writer after it, the count and the error.  A writer that accepts
  fewer bytes than it was given returns an error, as \<open>io.Writer\<close> requires.
\<close>

definition wr_write :: "byte list \<Rightarrow> writer \<Rightarrow> writer \<times> nat \<times> go_error option" where
  "wr_write p w =
     (case script w of
        [] \<Rightarrow> (w\<lparr>accepted := accepted w @ p\<rparr>, length p, None)
      | None # s \<Rightarrow> (w\<lparr>accepted := accepted w @ p, script := s\<rparr>, length p, None)
      | Some (k, e) # s \<Rightarrow>
          (w\<lparr>accepted := accepted w @ take k p, script := s\<rparr>, min k (length p), Some e))"

lemma wr_write_no_script [simp]:
  "script w = [] \<Longrightarrow> wr_write p w = (w\<lparr>accepted := accepted w @ p\<rparr>, length p, None)"
  by (simp add: wr_write_def)

lemma wr_write_accepted:
  "\<exists>k \<le> length p. accepted (fst (wr_write p w)) = accepted w @ take k p \<and> fst (snd (wr_write p w)) = k"
  by (auto simp: wr_write_def min_def split: list.splits option.splits prod.splits)

lemma wr_write_ok:
  "wr_write p w = (w', n, None) \<Longrightarrow> accepted w' = accepted w @ p \<and> n = length p"
  by (auto simp: wr_write_def split: list.splits option.splits prod.splits)

end
