(* ===== verification/GoStrings.thy ===== *)
theory GoStrings
  imports Prelude "HOL-Library.Sublist"
begin

text \<open>
  The functions of Go's packages strings and strconv that the components call: \<open>ToLower\<close>,
  \<open>HasPrefix\<close>, \<open>Split\<close> and \<open>Join\<close> on a one-byte separator, \<open>TrimSpace\<close>, \<open>Atoi\<close>, and the decimal
  rendering of \<open>%d\<close>.

  \<open>to_lower\<close> maps the ASCII capitals and leaves every other byte.  The code compares its result
  with the literals "octet", "add" and "complete" only; no letter outside ASCII lowers to a
  letter of these words, so the comparison has the outcome of the Unicode mapping.

  \<open>trim_space\<close> removes the UTF-8 encodings of all of Unicode's White_Space, as
  \<open>strings.TrimSpace\<close> does.  An error of \<open>Atoi\<close> is represented by the \<open>Err\<close> field of its
  \<open>NumError\<close>, \<open>ErrSyntax\<close> or \<open>ErrRange\<close>.
\<close>

subsection \<open>Case and prefixes\<close>

definition to_lower_char :: "char \<Rightarrow> char" where
  "to_lower_char c =
     (let n = of_char c :: nat in if 65 \<le> n \<and> n \<le> 90 then char_of (n + 32) else c)"

definition to_lower :: "string \<Rightarrow> string" where
  "to_lower s = map to_lower_char s"

definition has_prefix :: "'a list \<Rightarrow> 'a list \<Rightarrow> bool" where
  "has_prefix s p \<longleftrightarrow> length p \<le> length s \<and> take (length p) s = p"

lemma has_prefix_iff: "has_prefix s p \<longleftrightarrow> prefix p s"
proof
  show "has_prefix s p \<Longrightarrow> prefix p s"
    unfolding has_prefix_def using take_is_prefix [of "length p" s] by simp
  show "prefix p s \<Longrightarrow> has_prefix s p"
    by (auto simp: has_prefix_def prefix_def)
qed

lemma to_lower_simps [simp]:
  "to_lower [] = []"
  "length (to_lower s) = length s"
  "to_lower s = [] \<longleftrightarrow> s = []"
  by (simp_all add: to_lower_def)

subsection \<open>Split and Join\<close>

fun split_on :: "'a \<Rightarrow> 'a list \<Rightarrow> 'a list list" where
  "split_on c [] = [[]]"
| "split_on c (x # xs) =
     (if x = c then [] # split_on c xs
      else (case split_on c xs of [] \<Rightarrow> [[x]] | w # ws \<Rightarrow> (x # w) # ws))"

fun join :: "'a list \<Rightarrow> 'a list list \<Rightarrow> 'a list" where
  "join sep [] = []"
| "join sep [w] = w"
| "join sep (w # v # ws) = w @ sep @ join sep (v # ws)"

lemma split_on_not_Nil [simp]: "split_on c s \<noteq> []"
  by (induction s) (auto split: list.splits)

lemma join_split_on: "join [c] (split_on c s) = s"
proof (induction s)
  case Nil
  then show ?case by simp
next
  case (Cons x s)
  obtain w ws where w: "split_on c s = w # ws" by (meson neq_Nil_conv split_on_not_Nil)
  with Cons show ?case by (cases ws) auto
qed

lemma split_on_no_sep: "w \<in> set (split_on c s) \<Longrightarrow> c \<notin> set w"
  by (induction s arbitrary: w) (auto split: list.splits if_splits)

lemma split_on_id: "c \<notin> set s \<Longrightarrow> split_on c s = [s]"
  by (induction s) auto

lemma split_on_append: "c \<notin> set w \<Longrightarrow> split_on c (w @ c # s) = w # split_on c s"
  by (induction w) auto

lemma split_on_join:
  assumes "ws \<noteq> []" and "\<forall>w\<in>set ws. c \<notin> set w"
  shows "split_on c (join [c] ws) = ws"
  using assms by (induction "[c]" ws rule: join.induct) (auto simp: split_on_id split_on_append)

subsection \<open>TrimSpace\<close>

text \<open>Tab, newline, vertical tab, form feed, carriage return, space; U+0085, U+00A0, U+1680,
  U+2000 to U+200A, U+2028, U+2029, U+202F, U+205F and U+3000.\<close>

definition space_seqs :: "string list" where
  "space_seqs =
     [[CHR 0x09], [CHR 0x0A], [CHR 0x0B], [CHR 0x0C], [CHR 0x0D], [CHR 0x20],
      [CHR 0xC2, CHR 0x85], [CHR 0xC2, CHR 0xA0], [CHR 0xE1, CHR 0x9A, CHR 0x80],
      [CHR 0xE2, CHR 0x80, CHR 0x80], [CHR 0xE2, CHR 0x80, CHR 0x81], [CHR 0xE2, CHR 0x80, CHR 0x82],
      [CHR 0xE2, CHR 0x80, CHR 0x83], [CHR 0xE2, CHR 0x80, CHR 0x84], [CHR 0xE2, CHR 0x80, CHR 0x85],
      [CHR 0xE2, CHR 0x80, CHR 0x86], [CHR 0xE2, CHR 0x80, CHR 0x87], [CHR 0xE2, CHR 0x80, CHR 0x88],
      [CHR 0xE2, CHR 0x80, CHR 0x89], [CHR 0xE2, CHR 0x80, CHR 0x8A], [CHR 0xE2, CHR 0x80, CHR 0xA8],
      [CHR 0xE2, CHR 0x80, CHR 0xA9], [CHR 0xE2, CHR 0x80, CHR 0xAF], [CHR 0xE2, CHR 0x81, CHR 0x9F],
      [CHR 0xE3, CHR 0x80, CHR 0x80]]"

definition front_len :: "string list \<Rightarrow> string \<Rightarrow> nat" where
  "front_len seqs s = (case find (has_prefix s) seqs of None \<Rightarrow> 0 | Some p \<Rightarrow> length p)"

function trim_front :: "string list \<Rightarrow> string \<Rightarrow> string" where
  "trim_front seqs s =
     (if s = [] \<or> front_len seqs s = 0 then s else trim_front seqs (drop (front_len seqs s) s))"
  by pat_completeness auto
termination
  by (relation "measure (\<lambda>(seqs, s). length s)") auto

declare trim_front.simps [simp del]

definition trim_space :: "string \<Rightarrow> string" where
  "trim_space s = rev (trim_front (map rev space_seqs) (rev (trim_front space_seqs s)))"

definition starts_blank :: "string list \<Rightarrow> string \<Rightarrow> bool" where
  "starts_blank seqs s \<longleftrightarrow> (\<exists>p\<in>set seqs. prefix p s)"

lemma front_len_0: "[] \<notin> set seqs \<Longrightarrow> front_len seqs s = 0 \<longleftrightarrow> \<not> starts_blank seqs s"
  by (auto simp: front_len_def starts_blank_def has_prefix_iff find_None_iff find_Some_iff
      split: option.splits) (metis in_set_conv_nth list.size(3) nth_mem)+

lemma trim_front_fixed: "[] \<notin> set seqs \<Longrightarrow> \<not> starts_blank seqs s \<Longrightarrow> trim_front seqs s = s"
  by (subst trim_front.simps) (simp add: front_len_0)

lemma trim_front_not_blank: "[] \<notin> set seqs \<Longrightarrow> \<not> starts_blank seqs (trim_front seqs s)"
proof (induction seqs s rule: trim_front.induct)
  case (1 seqs s)
  then show ?case
    by (subst trim_front.simps) (auto simp: front_len_0, auto simp: starts_blank_def)
qed

lemma trim_front_suffix: "suffix (trim_front seqs s) s"
proof (induction seqs s rule: trim_front.induct)
  case (1 seqs s)
  then show ?case
    by (subst trim_front.simps) (auto intro: suffix_order.trans suffix_drop)
qed

lemma space_seqs_nonempty: "[] \<notin> set space_seqs" "[] \<notin> set (map rev space_seqs)"
  by (simp_all add: space_seqs_def)

lemma starts_blank_prefix: "\<not> starts_blank seqs s \<Longrightarrow> prefix t s \<Longrightarrow> \<not> starts_blank seqs t"
  by (meson prefix_order.trans starts_blank_def)

lemma trim_space_ends:
  "\<not> starts_blank space_seqs (trim_space s)"
  "\<not> starts_blank (map rev space_seqs) (rev (trim_space s))"
proof -
  let ?t = "trim_front space_seqs s"
  have "suffix (trim_front (map rev space_seqs) (rev ?t)) (rev ?t)" by (rule trim_front_suffix)
  then have "prefix (trim_space s) ?t" by (simp add: trim_space_def suffix_to_prefix)
  then show "\<not> starts_blank space_seqs (trim_space s)"
    using starts_blank_prefix trim_front_not_blank space_seqs_nonempty(1) by blast
  show "\<not> starts_blank (map rev space_seqs) (rev (trim_space s))"
    unfolding trim_space_def rev_rev_ident by (rule trim_front_not_blank [OF space_seqs_nonempty(2)])
qed

lemma trim_space_fixed:
  assumes "\<not> starts_blank space_seqs s" and "\<not> starts_blank (map rev space_seqs) (rev s)"
  shows "trim_space s = s"
  unfolding trim_space_def trim_front_fixed [OF space_seqs_nonempty(1) assms(1)]
    trim_front_fixed [OF space_seqs_nonempty(2) assms(2)]
  by simp

lemma trim_space_idem [simp]: "trim_space (trim_space s) = trim_space s"
  by (simp add: trim_space_fixed trim_space_ends)

subsection \<open>UTF-8\<close>

text \<open>\<open>utf8.ValidString\<close>: the byte ranges of well-formed UTF-8 (no surrogates, nothing above U+10FFFF).\<close>

fun valid_utf8_bytes :: "nat list \<Rightarrow> bool" where
  "valid_utf8_bytes [] \<longleftrightarrow> True"
| "valid_utf8_bytes (a # s) \<longleftrightarrow>
     (let cont = (\<lambda>lo hi b. lo \<le> b \<and> b \<le> (hi::nat)) in
      if a < 128 then valid_utf8_bytes s
      else if 194 \<le> a \<and> a \<le> 223 then
        (case s of b # s \<Rightarrow> cont 128 191 b \<and> valid_utf8_bytes s | _ \<Rightarrow> False)
      else if 224 \<le> a \<and> a \<le> 239 then
        (case s of b # c # s \<Rightarrow>
           cont (if a = 224 then 160 else 128) (if a = 237 then 159 else 191) b \<and> cont 128 191 c \<and>
           valid_utf8_bytes s
         | _ \<Rightarrow> False)
      else if 240 \<le> a \<and> a \<le> 244 then
        (case s of b # c # d # s \<Rightarrow>
           cont (if a = 240 then 144 else 128) (if a = 244 then 143 else 191) b \<and> cont 128 191 c \<and>
           cont 128 191 d \<and> valid_utf8_bytes s
         | _ \<Rightarrow> False)
      else False)"

definition valid_utf8 :: "string \<Rightarrow> bool" where
  "valid_utf8 s = valid_utf8_bytes (map of_char s)"

lemma valid_utf8_ascii: "(\<forall>c\<in>set s. (of_char c :: nat) < 128) \<Longrightarrow> valid_utf8 s"
  unfolding valid_utf8_def by (induction s) simp_all

subsection \<open>Decimal numbers\<close>

definition digit_char :: "nat \<Rightarrow> char" where
  "digit_char d = char_of (48 + d)"

fun show_nat :: "nat \<Rightarrow> string" where
  "show_nat n = (if n < 10 then [digit_char n] else show_nat (n div 10) @ [digit_char (n mod 10)])"

declare show_nat.simps [simp del]

definition show_int :: "int \<Rightarrow> string" where
  "show_int i = (if i < 0 then CHR ''-'' # show_nat (nat (- i)) else show_nat (nat i))"

abbreviation ErrSyntax :: go_error where
  "ErrSyntax \<equiv> ErrText ''invalid syntax''"

abbreviation ErrRange :: go_error where
  "ErrRange \<equiv> ErrText ''value out of range''"

fun parse_uint :: "nat \<Rightarrow> string \<Rightarrow> nat result" where
  "parse_uint n [] = Inr n"
| "parse_uint n (c # s) =
     (let d = of_char c :: nat in
      if d < 48 \<or> 57 < d then Inl ErrSyntax
      else let m = n * 10 + (d - 48) in if 2 ^ 64 \<le> m then Inl ErrRange else parse_uint m s)"

definition atoi :: "string \<Rightarrow> int result" where
  "atoi s =
     (let neg = (s \<noteq> [] \<and> hd s = CHR ''-'');
          u = (if s \<noteq> [] \<and> (hd s = CHR ''-'' \<or> hd s = CHR ''+'') then tl s else s) in
      if u = [] then Inl ErrSyntax
      else case parse_uint 0 u of
        Inl e \<Rightarrow> Inl e
      | Inr un \<Rightarrow>
          if \<not> neg \<and> 2 ^ 63 \<le> un \<or> neg \<and> 2 ^ 63 < un then Inl ErrRange
          else Inr (if neg then - int un else int un))"

lemma of_digit_char [simp]: "d < 10 \<Longrightarrow> (of_char (digit_char d) :: nat) = 48 + d"
  by (simp add: digit_char_def)

lemma parse_uint_append:
  "parse_uint n (s @ t) = (case parse_uint n s of Inl e \<Rightarrow> Inl e | Inr m \<Rightarrow> parse_uint m t)"
  by (induction n s rule: parse_uint.induct) (auto simp: Let_def)

lemma parse_show_nat: "n < 2 ^ 64 \<Longrightarrow> parse_uint 0 (show_nat n) = Inr n"
proof (induction n rule: show_nat.induct)
  case (1 n)
  show ?case
  proof (cases "n < 10")
    case True
    then show ?thesis by (subst show_nat.simps) (simp add: Let_def)
  next
    case False
    then have "parse_uint 0 (show_nat (n div 10)) = Inr (n div 10)" using 1 by simp
    with False "1.prems" show ?thesis
      by (subst show_nat.simps) (simp add: parse_uint_append Let_def)
  qed
qed

lemma show_nat_hd: "show_nat n \<noteq> [] \<and> (\<exists>d<10. hd (show_nat n) = digit_char d)"
proof (induction n rule: show_nat.induct)
  case (1 n)
  then show ?case by (subst (1 2) show_nat.simps) auto
qed

lemma digit_signs: "(of_char (CHR ''-'') :: nat) < 48" "(of_char (CHR ''+'') :: nat) < 48"
  by simp_all

lemma digit_char_not_sign: "d < 10 \<Longrightarrow> digit_char d \<noteq> CHR ''-'' \<and> digit_char d \<noteq> CHR ''+''"
proof -
  assume d: "d < 10"
  have "c \<noteq> digit_char d" if "(of_char c :: nat) < 48" for c
    using that of_digit_char [OF d] by auto
  then show ?thesis by (metis (mono_tags) digit_signs)
qed

lemma atoi_show_nat: "n < 2 ^ 63 \<Longrightarrow> atoi (show_nat n) = Inr (int n)"
proof -
  assume n: "n < 2 ^ 63"
  obtain d where d: "d < 10" "hd (show_nat n) = digit_char d" "show_nat n \<noteq> []"
    using show_nat_hd by blast
  from n have "parse_uint 0 (show_nat n) = Inr n" by (intro parse_show_nat) simp
  with n d digit_char_not_sign [OF d(1)] show ?thesis by (simp add: atoi_def)
qed

lemma atoi_range: "atoi s = Inr i \<Longrightarrow> - (2 ^ 63) \<le> i \<and> i < 2 ^ 63"
  by (auto simp: atoi_def Let_def split: sum.splits if_splits)

lemma atoi_Nil: "atoi '''' = Inl ErrSyntax"
  by (simp add: atoi_def)

end
