(* ===== verification/Tftp.thy ===== *)
theory Tftp
  imports GoIO GoStrings
begin

text \<open>
  The packet types of the TFTP server (chapter6/tftp.go): operation and error codes, and for
  each packet its struct and its \<open>MarshalBinary\<close> and \<open>UnmarshalBinary\<close> methods.  A method with a
  pointer receiver takes the receiver and returns it updated, also on the paths that return
  an error, because the code assigns the fields as it parses.
\<close>

subsection \<open>Constants\<close>

definition DatagramSize :: nat where
  "DatagramSize = 516"

definition BlockSize :: nat where
  "BlockSize = DatagramSize - 4"

type_synonym OpCode = u16

definition OpRRQ :: OpCode where "OpRRQ = 1"

definition OpDATA :: OpCode where "OpDATA = 3"

definition OpACK :: OpCode where "OpACK = 4"

definition OpERR :: OpCode where "OpERR = 5"

lemmas op_defs = OpRRQ_def OpDATA_def OpACK_def OpERR_def

type_synonym ErrorCode = u16

definition error_codes :: "(string \<times> ErrorCode) list" where
  "error_codes =
     [(''ErrUnknown'', 1), (''ErrNotFound'', 2), (''ErrAccessViolation'', 3), (''ErrDiskFull'', 4),
      (''ErrIllegalOp'', 5), (''ErrUnknownID'', 6), (''ErrFileExists'', 7), (''ErrNoUser'', 8)]"

subsection \<open>Read requests\<close>

record ReadReq =
  Filename :: string
  Mode :: string

definition ReadReq_MarshalBinary :: "ReadReq \<Rightarrow> byte list result" where
  "ReadReq_MarshalBinary q =
     (let mode = (if Mode q \<noteq> '''' then Mode q else ''octet'') in
      bind_res (buf_write [] (put_be16 OpRRQ)) (\<lambda>b.
      bind_res (buf_write b (to_bytes (Filename q))) (\<lambda>b.
      bind_res (buf_write b [0]) (\<lambda>b.
      bind_res (buf_write b (to_bytes mode)) (\<lambda>b.
      buf_write b [0])))))"

definition invalid_RRQ :: "go_error option" where
  "invalid_RRQ = Some (ErrText ''invalid RRQ'')"

definition ReadReq_UnmarshalBinary :: "ReadReq \<Rightarrow> byte list \<Rightarrow> ReadReq \<times> go_error option" where
  "ReadReq_UnmarshalBinary q p =
     (case read_u16 p of
        (Inl err, r) \<Rightarrow> (q, Some (Wrapped ''failed to read operation code: '' err))
      | (Inr op, r) \<Rightarrow>
          if op \<noteq> OpRRQ then (q, invalid_RRQ)
          else case read_string 0 r of (s, r, err) \<Rightarrow>
            let q = q\<lparr>Filename := of_bytes s\<rparr> in
            if err \<noteq> None then (q, invalid_RRQ)
            else let q = q\<lparr>Filename := trim_right_nul (Filename q)\<rparr> in
            if Filename q = '''' then (q, invalid_RRQ)
            else case read_string 0 r of (s, r, err) \<Rightarrow>
              let q = q\<lparr>Mode := of_bytes s\<rparr> in
              if err \<noteq> None then (q, invalid_RRQ)
              else let q = q\<lparr>Mode := trim_right_nul (Mode q)\<rparr> in
              if Mode q = '''' then (q, invalid_RRQ)
              else let actualMode = to_lower (Mode q) in
              if actualMode \<noteq> ''octet'' then (q, Some (ErrText ''only binary transfers supported''))
              else (q, None))"

text \<open>The requests the server accepts, and their layout on the wire.\<close>

definition valid_rrq :: "ReadReq \<Rightarrow> bool" where
  "valid_rrq q \<longleftrightarrow>
     Filename q \<noteq> '''' \<and> NUL \<notin> set (Filename q) \<and> NUL \<notin> set (Mode q) \<and> to_lower (Mode q) = ''octet''"

definition rrq_bytes :: "string \<Rightarrow> string \<Rightarrow> byte list" where
  "rrq_bytes fn md = put_be16 OpRRQ @ to_bytes fn @ [0] @ to_bytes md @ [0]"

lemma valid_rrq_Mode: "valid_rrq q \<Longrightarrow> Mode q \<noteq> ''''"
  by (auto simp: valid_rrq_def)

lemma ReadReq_Marshal_bytes [codec_simps]:
  "ReadReq_MarshalBinary q =
     Inr (rrq_bytes (Filename q) (if Mode q = '''' then ''octet'' else Mode q))"
  by (simp add: ReadReq_MarshalBinary_def rrq_bytes_def Let_def)

lemma ReadReq_Unmarshal_bytes:
  assumes "fn \<noteq> ''''" "NUL \<notin> set fn" "NUL \<notin> set md" "to_lower md = ''octet''"
  shows "ReadReq_UnmarshalBinary q (rrq_bytes fn md @ rest) = (q\<lparr>Filename := fn, Mode := md\<rparr>, None)"
proof -
  have "md \<noteq> ''''" using assms(4) by auto
  have 1: "read_string 0 (to_bytes fn @ 0 # to_bytes md @ 0 # rest) =
      (to_bytes fn @ [0], to_bytes md @ 0 # rest, None)"
    using assms by (intro read_string_found) simp
  have 2: "read_string 0 (to_bytes md @ 0 # rest) = (to_bytes md @ [0], rest, None)"
    using assms by (intro read_string_found) simp
  show ?thesis
    using assms \<open>md \<noteq> ''''\<close>
    by (simp add: ReadReq_UnmarshalBinary_def rrq_bytes_def read_u16_put 1 2 Let_def)
qed

lemma ReadReq_Unmarshal_ok:
  assumes "ReadReq_UnmarshalBinary q p = (q', None)"
  shows "valid_rrq q' \<and> (\<exists>rest. p = rrq_bytes (Filename q') (Mode q') @ rest)"
proof -
  obtain r where r: "read_u16 p = (Inr OpRRQ, r)"
    using assms by (auto simp: ReadReq_UnmarshalBinary_def invalid_RRQ_def split: prod.splits sum.splits if_splits)
  show ?thesis
  proof (cases rule: read_string_cases [of r 0])
    case missing
    with assms r show ?thesis by (simp add: ReadReq_UnmarshalBinary_def invalid_RRQ_def Let_def)
  next
    case (found s r')
    note f1 = found
    show ?thesis
    proof (cases rule: read_string_cases [of r' 0])
      case missing
      with assms r f1 show ?thesis
        by (simp add: ReadReq_UnmarshalBinary_def invalid_RRQ_def Let_def split: if_splits)
    next
      case (found m rest)
      have q': "q' = q\<lparr>Filename := of_bytes s, Mode := of_bytes m\<rparr>" "s \<noteq> []" "m \<noteq> []"
        "to_lower (of_bytes m) = ''octet''"
        using assms r f1 found
        by (auto simp: ReadReq_UnmarshalBinary_def invalid_RRQ_def Let_def split: if_splits)
      with r f1 found have "p = rrq_bytes (Filename q') (Mode q') @ rest"
        by (simp add: rrq_bytes_def read_u16_Inr)
      with q' f1 found show ?thesis by (auto simp: valid_rrq_def)
    qed
  qed
qed

interpretation rrq: front_codec ReadReq_MarshalBinary ReadReq_UnmarshalBinary valid_rrq
proof
  fix x :: ReadReq
  show "\<exists>b. ReadReq_MarshalBinary x = Inr b" by (simp add: codec_simps)
next
  fix x y :: ReadReq and b junk
  assume v: "valid_rrq x" and b: "ReadReq_MarshalBinary x = Inr b"
  with valid_rrq_Mode [OF v] have "b = rrq_bytes (Filename x) (Mode x)"
    by (simp add: codec_simps)
  with v show "ReadReq_UnmarshalBinary y (b @ junk) = (x, None)"
    by (simp add: ReadReq_Unmarshal_bytes valid_rrq_def)
qed

subsection \<open>Data packets\<close>

record Data =
  Block :: u16
  Payload :: reader

definition Data_MarshalBinary :: "Data \<Rightarrow> Data \<times> byte list result" where
  "Data_MarshalBinary d =
     (let d = d\<lparr>Block := Block d + 1\<rparr> in
      case bind_res (buf_write [] (put_be16 OpDATA)) (\<lambda>b. buf_write b (put_be16 (Block d))) of
        Inl err \<Rightarrow> (d, Inl err)
      | Inr b \<Rightarrow>
          (case copy_n BlockSize (Payload d) of (r, p, err) \<Rightarrow>
             let d = d\<lparr>Payload := r\<rparr> in
             case err of
               None \<Rightarrow> (d, Inr (b @ p))
             | Some e \<Rightarrow> if e \<noteq> EOF then (d, Inl e) else (d, Inr (b @ p))))"

definition invalid_DATA :: "go_error option" where
  "invalid_DATA = Some (ErrText ''invalid DATA'')"

definition Data_UnmarshalBinary :: "Data \<Rightarrow> byte list \<Rightarrow> Data \<times> go_error option" where
  "Data_UnmarshalBinary d p =
     (if length p < 4 \<or> DatagramSize < length p then (d, invalid_DATA)
      else case read_u16 (take 2 p) of
        (Inl err, r) \<Rightarrow> (d, invalid_DATA)
      | (Inr op, r) \<Rightarrow>
          if op \<noteq> OpDATA then (d, invalid_DATA)
          else (case read_u16 (take 2 (drop 2 p)) of
            (Inl err, r) \<Rightarrow> (d, invalid_DATA)
          | (Inr blk, r) \<Rightarrow>
              let d = d\<lparr>Block := blk\<rparr> in
              (d\<lparr>Payload := bytes_reader (drop 4 p)\<rparr>, None)))"

definition data_bytes :: "u16 \<Rightarrow> byte list \<Rightarrow> byte list" where
  "data_bytes n p = put_be16 OpDATA @ put_be16 n @ p"

lemma length_data_bytes [simp]: "length (data_bytes n p) = 4 + length p"
  by (simp add: data_bytes_def)

lemma data_bytes_inj [simp]: "data_bytes n p = data_bytes m q \<longleftrightarrow> n = m \<and> p = q"
  by (auto simp: data_bytes_def)

lemma BlockSize_512 [simp]: "BlockSize = 512"
  by (simp add: BlockSize_def DatagramSize_def)

lemma Data_Marshal_stream:
  assumes "fin (Payload d) = EOF \<or> BlockSize \<le> length (stream (Payload d))"
  obtains r where
    "Data_MarshalBinary d = (\<lparr>Block = Block d + 1, Payload = r\<rparr>,
       Inr (data_bytes (Block d + 1) (take BlockSize (stream (Payload d)))))"
    "stream r = drop BlockSize (stream (Payload d))" "fin r = fin (Payload d)"
proof -
  obtain r where r: "copy_n BlockSize (Payload d) = (r, take BlockSize (stream (Payload d)),
      if BlockSize \<le> length (stream (Payload d)) then None else Some (fin (Payload d)))"
    "stream r = drop BlockSize (stream (Payload d))" "fin r = fin (Payload d)"
    by (rule copy_n_stream)
  show ?thesis
    by (rule that [of r]) (use assms r in \<open>auto simp: Data_MarshalBinary_def Let_def data_bytes_def\<close>)
qed

lemma Data_Marshal_error:
  assumes "fin (Payload d) \<noteq> EOF" "length (stream (Payload d)) < BlockSize"
  shows "snd (Data_MarshalBinary d) = Inl (fin (Payload d))"
    "Block (fst (Data_MarshalBinary d)) = Block d + 1"
proof -
  obtain r where "copy_n BlockSize (Payload d) = (r, take BlockSize (stream (Payload d)),
      if BlockSize \<le> length (stream (Payload d)) then None else Some (fin (Payload d)))"
    by (rule copy_n_stream)
  with assms show "snd (Data_MarshalBinary d) = Inl (fin (Payload d))"
    "Block (fst (Data_MarshalBinary d)) = Block d + 1"
    by (simp_all add: Data_MarshalBinary_def Let_def)
qed

lemma Data_Unmarshal_bytes:
  assumes "length p \<le> BlockSize"
  shows "Data_UnmarshalBinary d (data_bytes n p) = (\<lparr>Block = n, Payload = bytes_reader p\<rparr>, None)"
  using assms read_u16_put [of _ "[]"]
  by (simp add: Data_UnmarshalBinary_def data_bytes_def DatagramSize_def Let_def)


subsection \<open>Acknowledgments\<close>

type_synonym Ack = u16

definition Ack_MarshalBinary :: "Ack \<Rightarrow> byte list result" where
  "Ack_MarshalBinary a =
     bind_res (buf_write [] (put_be16 OpACK)) (\<lambda>b. buf_write b (put_be16 a))"

definition Ack_UnmarshalBinary :: "Ack \<Rightarrow> byte list \<Rightarrow> Ack \<times> go_error option" where
  "Ack_UnmarshalBinary a p =
     (case read_u16 p of
        (Inl err, r) \<Rightarrow> (a, Some err)
      | (Inr code, r) \<Rightarrow>
          if code \<noteq> OpACK then (a, Some (ErrText ''invalid ACK''))
          else (case read_u16 r of
            (Inl err, r) \<Rightarrow> (a, Some err)
          | (Inr v, r) \<Rightarrow> (v, None)))"

definition ack_bytes :: "Ack \<Rightarrow> byte list" where
  "ack_bytes a = put_be16 OpACK @ put_be16 a"

lemma Ack_Marshal_bytes [codec_simps]: "Ack_MarshalBinary a = Inr (ack_bytes a)"
  by (simp add: Ack_MarshalBinary_def ack_bytes_def)

lemma Ack_Unmarshal_bytes [codec_simps]: "Ack_UnmarshalBinary b (ack_bytes a @ rest) = (a, None)"
  by (simp add: Ack_UnmarshalBinary_def ack_bytes_def read_u16_put)

lemma Ack_Unmarshal_iff:
  "snd (Ack_UnmarshalBinary a p) = None \<longleftrightarrow> (\<exists>n rest. p = ack_bytes n @ rest)"
  by (auto simp: Ack_UnmarshalBinary_def ack_bytes_def read_u16_Inr read_u16_put
      split: prod.splits sum.splits if_splits)

interpretation ack: front_codec Ack_MarshalBinary Ack_UnmarshalBinary "\<lambda>_. True"
  by unfold_locales (auto simp: codec_simps)

subsection \<open>Error packets\<close>

record Err =
  Error :: ErrorCode
  Message :: string

definition Err_MarshalBinary :: "Err \<Rightarrow> byte list result" where
  "Err_MarshalBinary e =
     bind_res (buf_write [] (put_be16 OpERR)) (\<lambda>b.
     bind_res (buf_write b (put_be16 (Error e))) (\<lambda>b.
     bind_res (buf_write b (to_bytes (Message e))) (\<lambda>b.
     buf_write b [0])))"

definition Err_UnmarshalBinary :: "Err \<Rightarrow> byte list \<Rightarrow> Err \<times> go_error option" where
  "Err_UnmarshalBinary e p =
     (case read_u16 p of
        (Inl err, r) \<Rightarrow> (e, Some err)
      | (Inr code, r) \<Rightarrow>
          if code \<noteq> OpERR then (e, Some (ErrText ''invalid ERROR''))
          else (case read_u16 r of
            (Inl err, r) \<Rightarrow> (e, Some err)
          | (Inr v, r) \<Rightarrow>
              let e = e\<lparr>Error := v\<rparr> in
              case read_string 0 r of (s, r, err) \<Rightarrow>
                let e = e\<lparr>Message := of_bytes s\<rparr> in
                if err \<noteq> None then (e, err)
                else (e\<lparr>Message := trim_right_nul (Message e)\<rparr>, None)))"

definition err_bytes :: "ErrorCode \<Rightarrow> string \<Rightarrow> byte list" where
  "err_bytes c m = put_be16 OpERR @ put_be16 c @ to_bytes m @ [0]"

lemma Err_Marshal_bytes [codec_simps]: "Err_MarshalBinary e = Inr (err_bytes (Error e) (Message e))"
  by (simp add: Err_MarshalBinary_def err_bytes_def)

lemma Err_Unmarshal_bytes:
  assumes "NUL \<notin> set m"
  shows "Err_UnmarshalBinary e (err_bytes c m @ rest) = (\<lparr>Error = c, Message = m\<rparr>, None)"
proof -
  have "read_string 0 (to_bytes m @ 0 # rest) = (to_bytes m @ [0], rest, None)"
    using assms by (intro read_string_found) simp
  with assms show ?thesis
    by (simp add: Err_UnmarshalBinary_def err_bytes_def read_u16_put Let_def)
qed

interpretation err: front_codec Err_MarshalBinary Err_UnmarshalBinary "\<lambda>e. NUL \<notin> set (Message e)"
proof
  fix x :: Err
  show "\<exists>b. Err_MarshalBinary x = Inr b" by (simp add: codec_simps)
next
  fix x y :: Err and b junk
  assume "NUL \<notin> set (Message x)" and "Err_MarshalBinary x = Inr b"
  then show "Err_UnmarshalBinary y (b @ junk) = (x, None)"
    by (auto simp: codec_simps Err_Unmarshal_bytes)
qed

text \<open>The packet kinds exclude each other: the server's case distinction is by operation code.\<close>

lemma Ack_Unmarshal_err: "snd (Ack_UnmarshalBinary a (err_bytes c m @ rest)) \<noteq> None"
  by (simp add: Ack_UnmarshalBinary_def err_bytes_def read_u16_put op_defs)

lemma Err_Unmarshal_ack: "snd (Err_UnmarshalBinary e (ack_bytes a @ rest)) \<noteq> None"
  by (simp add: Err_UnmarshalBinary_def ack_bytes_def read_u16_put op_defs)

lemma ack_err_exclusive:
  "snd (Ack_UnmarshalBinary a p) = None \<Longrightarrow> snd (Err_UnmarshalBinary e p) \<noteq> None"
  using Err_Unmarshal_ack by (auto simp: Ack_Unmarshal_iff)

subsection \<open>Properties of the packet types\<close>

text \<open>
  C13: the parser of read requests accepts exactly the documented layout: the operation code, a
  non-empty file name and a mode spelling "octet" in any case, each closed by a zero byte;
  whatever follows is ignored.  The fields it sets are the two strings of the packet, and do
  not depend on what the receiver held before.
\<close>

theorem rrq_accepts_exactly:
  "ReadReq_UnmarshalBinary q p = (q', None) \<longleftrightarrow>
     valid_rrq q' \<and> (\<exists>rest. p = rrq_bytes (Filename q') (Mode q') @ rest)"
proof
  assume "ReadReq_UnmarshalBinary q p = (q', None)"
  then show "valid_rrq q' \<and> (\<exists>rest. p = rrq_bytes (Filename q') (Mode q') @ rest)"
    by (rule ReadReq_Unmarshal_ok)
next
  assume "valid_rrq q' \<and> (\<exists>rest. p = rrq_bytes (Filename q') (Mode q') @ rest)"
  then show "ReadReq_UnmarshalBinary q p = (q', None)"
    by (auto simp: valid_rrq_def ReadReq_Unmarshal_bytes)
qed

text \<open>
  A client's read request survives the wire: a request for a file name without zero bytes,
  in octet mode or with the mode left empty, is read back by the server with the same file
  name and the mode "octet" filled in.
\<close>

theorem rrq_roundtrip:
  assumes "Filename q \<noteq> []" and "NUL \<notin> set (Filename q)"
    and "Mode q = [] \<or> to_lower (Mode q) = ''octet'' \<and> NUL \<notin> set (Mode q)"
  shows "\<exists>b. ReadReq_MarshalBinary q = Inr b \<and>
    ReadReq_UnmarshalBinary r (b @ junk) =
      (\<lparr>Filename = Filename q, Mode = (if Mode q = [] then ''octet'' else Mode q)\<rparr>, None)"
proof -
  have "to_lower ''octet'' = ''octet''" "NUL \<notin> set ''octet''"
    by (simp_all add: to_lower_def to_lower_char_def NUL_def)
  with assms ReadReq_Unmarshal_bytes [of "Filename q" "if Mode q = [] then ''octet'' else Mode q" r junk]
  show ?thesis by (auto simp: ReadReq_Marshal_bytes)
qed

theorem rrq_roundtrip_witness:
  "\<exists>b. ReadReq_MarshalBinary \<lparr>Filename = ''a.txt'', Mode = []\<rparr> = Inr b \<and>
    ReadReq_UnmarshalBinary \<lparr>Filename = ''old'', Mode = ''old''\<rparr> (b @ [7]) =
      (\<lparr>Filename = ''a.txt'', Mode = ''octet''\<rparr>, None)"
  using rrq_roundtrip [of "\<lparr>Filename = ''a.txt'', Mode = []\<rparr>" "\<lparr>Filename = ''old'', Mode = ''old''\<rparr>" "[7]"]
  by (simp add: NUL_def)

text \<open>
  C34: sequential calls of \<open>Data.MarshalBinary\<close> cut the payload into blocks.  As long as the reader
  does not fail, a call takes the next 512 bytes (or what is left), numbers them one above the
  last block modulo 65536, and produces a datagram of at most 516 bytes that parses back to
  that block; it is shorter than 516 bytes exactly when fewer than 512 bytes were left, which
  is how both sides recognise the last packet.
\<close>

theorem data_marshal_blocks:
  assumes "fin (Payload d) = EOF"
  shows "\<exists>d' b. Data_MarshalBinary d = (d', Inr b) \<and> Block d' = Block d + 1 \<and>
    stream (Payload d') = drop BlockSize (stream (Payload d)) \<and>
    (length b < DatagramSize) = (length (stream (Payload d)) < BlockSize) \<and>
    (\<exists>e'. Data_UnmarshalBinary e b = (e', None) \<and> Block e' = Block d + 1 \<and>
      stream (Payload e') = take BlockSize (stream (Payload d)))"
proof -
  obtain r where "Data_MarshalBinary d = (\<lparr>Block = Block d + 1, Payload = r\<rparr>,
      Inr (data_bytes (Block d + 1) (take BlockSize (stream (Payload d)))))"
    "stream r = drop BlockSize (stream (Payload d))"
    using Data_Marshal_stream assms by blast
  then show ?thesis by (auto simp: Data_Unmarshal_bytes DatagramSize_def)
qed

theorem data_marshal_blocks_witness:
  "\<exists>d' b. Data_MarshalBinary \<lparr>Block = 41, Payload = bytes_reader [9]\<rparr> = (d', Inr b) \<and> Block d' = 42"
  using data_marshal_blocks [of "\<lparr>Block = 41, Payload = bytes_reader [9]\<rparr>" "\<lparr>Block = 0, Payload = bytes_reader []\<rparr>"]
  by fastforce

text \<open>
  What the server reads from its socket is recognised whatever its reused buffer held: an
  acknowledgment or an error packet written over old contents parses to the packet that was
  sent, and the two are never taken for one another.
\<close>

theorem reused_buffer_recognised:
  assumes "Ack_MarshalBinary a = Inr p" and "Err_MarshalBinary e = Inr q"
    and "NUL \<notin> set (Message e)" and "length p \<le> length buf" and "length q \<le> length buf"
  shows "Ack_UnmarshalBinary x (overlay p buf) = (a, None) \<and>
    Err_UnmarshalBinary y (overlay q buf) = (e, None) \<and>
    snd (Err_UnmarshalBinary y (overlay p buf)) \<noteq> None \<and>
    snd (Ack_UnmarshalBinary x (overlay q buf)) \<noteq> None"
proof -
  have "Ack_UnmarshalBinary x (overlay p buf) = (a, None)" "Err_UnmarshalBinary y (overlay q buf) = (e, None)"
    using assms ack.unmarshal_overlay err.unmarshal_overlay by blast+
  then show ?thesis using ack_err_exclusive [of x "overlay p buf" y] ack_err_exclusive [of x "overlay q buf" y]
    by auto
qed

theorem reused_buffer_recognised_witness:
  "Ack_UnmarshalBinary 0 (overlay [0, 4, 0, 9] (replicate 20 255)) = (9, None)"
proof -
  have a: "Ack_MarshalBinary 9 = Inr [0, 4, 0, 9]" by code_simp
  have e: "Err_MarshalBinary \<lparr>Error = 1, Message = ''x''\<rparr> = Inr [0, 5, 0, 1, 120, 0]" by code_simp
  show ?thesis
    using reused_buffer_recognised [OF a e, of "replicate 20 255" 0 "\<lparr>Error = 1, Message = ''x''\<rparr>"]
    by (simp add: NUL_def)
qed

subsection \<open>One kind for every packet\<close>








end
