(* ===== verification/TftpServer.thy ===== *)
theory TftpServer
  imports Tftp
begin

text \<open>
  The TFTP server (chapter6/server.go, main.go).  \<open>handle\<close> serves one client: it sends the payload
  block by block, waits for each acknowledgment and retransmits; \<open>Serve\<close> reads requests from the
  listening socket and starts a handler for each; \<open>ListenAndServe\<close> and \<open>main\<close> set it up.

  The network is the environment.  For a handler it is a list of \<open>attempt\<close>s, one for each pass
  through the retry loop: the error of \<open>conn.Write\<close>, the error of \<open>conn.Read\<close> (\<open>Timeout\<close> when the
  read deadline passed), or the datagram read.  When the list ends the handler is still waiting
  (\<open>Waiting\<close>), so a theorem about every list is one about every prefix of every run.
  For \<open>Serve\<close> the environment is the list of results of \<open>conn.ReadFrom\<close>.
\<close>

record Server =
  srv_Payload :: "byte list option"
  Retries :: u8
  srv_Timeout :: duration

subsection \<open>The handler of one request\<close>

datatype attempt =
    WriteErr go_error
  | ReadErr go_error
  | Received "byte list"

datatype outcome =
    DialErr go_error
  | PreparingErr go_error
  | WriteFailed go_error
  | AckFailed go_error
  | ClientErr string
  | ExhaustedRetries
  | SentBlocks u16
  | Waiting

record hstate =
  ackPkt :: Ack
  errPkt :: Err
  dataPkt :: Data
  hbuf :: "byte list"
  sent :: "byte list list"

datatype retry_result = NextPacket | Return outcome

text \<open>
  One pass through the loop labelled RETRY: send, wait for the answer, inspect the buffer.
  \<open>None\<close> means that the loop goes on.  The buffer is not cleared and the length of the
  datagram is not used.
\<close>

fun retry_body :: "byte list \<Rightarrow> hstate \<Rightarrow> attempt \<Rightarrow> hstate \<times> retry_result option" where
  "retry_body data st (WriteErr e) = (st, Some (Return (WriteFailed e)))"
| "retry_body data st (ReadErr e) =
     (let st = st\<lparr>sent := sent st @ [data]\<rparr> in
      if e = Timeout then (st, None) else (st, Some (Return (AckFailed e))))"
| "retry_body data st (Received pkt) =
     (let st = st\<lparr>sent := sent st @ [data], hbuf := overlay pkt (hbuf st)\<rparr> in
      case Ack_UnmarshalBinary (ackPkt st) (hbuf st) of
        (a, None) \<Rightarrow>
          let st = st\<lparr>ackPkt := a\<rparr> in
          (st, if a = Block (dataPkt st) then Some NextPacket else None)
      | (a, Some _) \<Rightarrow>
          let st = st\<lparr>ackPkt := a\<rparr> in
          (case Err_UnmarshalBinary (errPkt st) (hbuf st) of
             (e, None) \<Rightarrow> (st\<lparr>errPkt := e\<rparr>, Some (Return (ClientErr (Message e))))
           | (e, Some _) \<Rightarrow> (st\<lparr>errPkt := e\<rparr>, None)))"

text \<open>The loop with \<open>i\<close> attempts left.\<close>

fun retry_loop :: "nat \<Rightarrow> byte list \<Rightarrow> hstate \<Rightarrow> attempt list \<Rightarrow> retry_result \<times> hstate \<times> attempt list" where
  "retry_loop 0 data st evs = (Return ExhaustedRetries, st, evs)"
| "retry_loop (Suc i) data st [] = (Return Waiting, st, [])"
| "retry_loop (Suc i) data st (ev # evs) =
     (case retry_body data st ev of
        (st, Some res) \<Rightarrow> (res, st, evs)
      | (st, None) \<Rightarrow> retry_loop i data st evs)"

lemma retry_loop_consumes:
  "retry_loop i data st evs = (NextPacket, st', evs') \<Longrightarrow> length evs' < length evs"
  by (induction i data st evs rule: retry_loop.induct)
    (auto intro: less_SucI split: prod.splits option.splits)

text \<open>The loop labelled NEXTPACKET: \<open>n\<close> is the size of the datagram sent last.\<close>

function send_loop :: "nat \<Rightarrow> nat \<Rightarrow> hstate \<Rightarrow> attempt list \<Rightarrow> outcome \<times> hstate" where
  "send_loop retries n st evs =
     (if n \<noteq> DatagramSize then (SentBlocks (Block (dataPkt st)), st)
      else case Data_MarshalBinary (dataPkt st) of
        (d, Inl e) \<Rightarrow> (PreparingErr e, st\<lparr>dataPkt := d\<rparr>)
      | (d, Inr data) \<Rightarrow>
          (case retry_loop retries data (st\<lparr>dataPkt := d\<rparr>) evs of
             (NextPacket, st', evs') \<Rightarrow> send_loop retries (length data) st' evs'
           | (Return r, st', evs') \<Rightarrow> (r, st')))"
  by pat_completeness auto
termination
  by (relation "measure (\<lambda>(retries, n, st, evs). length evs)")
    (auto dest: retry_loop_consumes [OF sym])

declare send_loop.simps [simp del]

definition init_hstate :: "Server \<Rightarrow> hstate" where
  "init_hstate s =
     \<lparr>ackPkt = 0, errPkt = \<lparr>Error = 0, Message = ''''\<rparr>,
      dataPkt = \<lparr>Block = 0, Payload = bytes_reader (case srv_Payload s of None \<Rightarrow> [] | Some p \<Rightarrow> p)\<rparr>,
      hbuf = replicate DatagramSize 0, sent = []\<rparr>"

definition handle :: "Server \<Rightarrow> go_error option \<Rightarrow> attempt list \<Rightarrow> outcome \<times> hstate" where
  "handle s dial evs =
     (case dial of
        Some e \<Rightarrow> (DialErr e, init_hstate s)
      | None \<Rightarrow> send_loop (unat (Retries s)) DatagramSize (init_hstate s) evs)"

subsection \<open>What one packet's retry loop does\<close>

text \<open>From \<open>st\<close> to \<open>st'\<close>, \<open>k\<close> copies of one datagram were sent and the packet was not changed.\<close>

definition progress :: "byte list \<Rightarrow> nat \<Rightarrow> hstate \<Rightarrow> hstate \<Rightarrow> bool" where
  "progress data k st st' \<longleftrightarrow>
     sent st' = sent st @ replicate k data \<and> dataPkt st' = dataPkt st \<and>
     length (hbuf st') = length (hbuf st)"

lemma progress_refl [simp]: "progress data 0 st st"
  by (simp add: progress_def)

lemma progress_trans: "progress data k st st1 \<Longrightarrow> progress data l st1 st' \<Longrightarrow> progress data (k + l) st st'"
  by (simp add: progress_def replicate_add)

text \<open>How the loop may end after \<open>k\<close> copies.\<close>

definition ended :: "nat \<Rightarrow> hstate \<Rightarrow> retry_result \<Rightarrow> hstate \<Rightarrow> bool" where
  "ended k st res st' \<longleftrightarrow>
     (res = NextPacket \<longrightarrow> 0 < k \<and> ackPkt st' = Block (dataPkt st)) \<and>
     (\<forall>b e. res \<noteq> Return (SentBlocks b) \<and> res \<noteq> Return (PreparingErr e))"

lemma ended_more: "progress data l st st1 \<Longrightarrow> ended k st1 res st' \<Longrightarrow> ended (l + k) st res st'"
  by (auto simp: ended_def progress_def)

lemma retry_body_progress:
  assumes "retry_body data st ev = (st', res)"
  shows "\<exists>k\<le>1. progress data k st st' \<and> (res = None \<longrightarrow> k = 1) \<and>
    (\<forall>r. res = Some r \<longrightarrow> ended k st r st' \<and> r \<noteq> Return Waiting)"
  using assms
  by (cases ev) (auto simp: Let_def progress_def ended_def split: if_splits prod.splits option.splits
    intro: exI [of _ 0] exI [of _ 1])

text \<open>One attempt: either the loop goes on with one copy more sent, or it ends here.\<close>

lemma retry_loop_attempt:
  assumes "retry_loop (Suc i) data st (ev # evs) = (res, st', evs')"
  shows "(\<exists>st1. progress data 1 st st1 \<and> retry_loop i data st1 evs = (res, st', evs')) \<or>
    (\<exists>k\<le>1. evs' = evs \<and> progress data k st st' \<and> ended k st res st' \<and> res \<noteq> Return Waiting)"
proof -
  obtain st1 r where r: "retry_body data st ev = (st1, r)" by fastforce
  with assms retry_body_progress [OF r] show ?thesis by (cases r) auto
qed

lemma retry_loop_spec:
  assumes "retry_loop i data st evs = (res, st', evs')"
  obtains k used where "k \<le> i" "progress data k st st'" "ended k st res st'"
    "evs = used @ evs'" "length used \<le> i" "res = Return Waiting \<longrightarrow> evs' = [] \<and> length used < i"
proof -
  have "\<exists>k used. k \<le> i \<and> progress data k st st' \<and> ended k st res st' \<and>
      evs = used @ evs' \<and> length used \<le> i \<and>
      (res = Return Waiting \<longrightarrow> evs' = [] \<and> length used < i)"
    using assms
  proof (induction i arbitrary: st evs)
    case 0
    then show ?case by (auto simp: ended_def)
  next
    case (Suc i)
    show ?case
    proof (cases evs)
      case Nil
      with Suc.prems show ?thesis by (auto simp: ended_def intro!: exI [of _ 0])
    next
      case (Cons ev evs0)
      with retry_loop_attempt [of i data st ev evs0] Suc.prems consider
        (again) st1 where "progress data 1 st st1" "retry_loop i data st1 evs0 = (res, st', evs')"
      | (stop) k where "k \<le> 1" "evs' = evs0" "progress data k st st'" "ended k st res st'" "res \<noteq> Return Waiting"
        by blast
      then show ?thesis
      proof cases
        case again
        then obtain k used where "k \<le> i" "progress data k st1 st'" "ended k st1 res st'"
          "evs0 = used @ evs'" "length used \<le> i" "res = Return Waiting \<longrightarrow> evs' = [] \<and> length used < i"
          using Suc.IH by blast
        with again Cons show ?thesis
          using progress_trans [OF again(1)] ended_more [OF again(1)]
          by (intro exI [of _ "1 + k"] exI [of _ "ev # used"]) auto
      next
        case stop
        with Cons show ?thesis by (intro exI [of _ k] exI [of _ "[ev]"]) auto
      qed
    qed
  qed
  then show ?thesis using that by blast
qed

subsection \<open>The blocks of a payload\<close>

text \<open>
  The abstract view of a transfer: the payload cut into blocks of 512 bytes, the last one
  shorter (and empty when the length is a multiple of 512), each sent as a data packet whose
  number counts from 1 and wraps around after 65535.
\<close>

fun blocks :: "byte list \<Rightarrow> byte list list" where
  "blocks P = (if length P < BlockSize then [P] else take BlockSize P # blocks (drop BlockSize P))"

declare blocks.simps [simp del]

fun number :: "u16 \<Rightarrow> byte list list \<Rightarrow> byte list list" where
  "number n [] = []"
| "number n (b # bs) = data_bytes (n + 1) b # number (n + 1) bs"

text \<open>What a receiver makes of the datagrams: repetitions dropped, the payloads joined.\<close>

definition reassemble :: "byte list list \<Rightarrow> byte list" where
  "reassemble ds =
     concat (map (\<lambda>d. stream (Payload (fst (Data_UnmarshalBinary \<lparr>Block = 0, Payload = bytes_reader []\<rparr> d))))
       (remdups_adj ds))"

lemma concat_blocks: "concat (blocks P) = P"
  by (induction P rule: blocks.induct) (subst blocks.simps, simp)

lemma blocks_length: "b \<in> set (blocks P) \<Longrightarrow> length b \<le> BlockSize"
  by (induction P rule: blocks.induct) (subst (asm) (2) blocks.simps, auto split: if_splits)

lemma blocks_not_Nil [simp]: "blocks P \<noteq> []"
  by (subst blocks.simps) simp

lemma blocks_unfold:
  "blocks P = take BlockSize P # (if length P < BlockSize then [] else blocks (drop BlockSize P))"
  by (subst blocks.simps) simp

lemma length_blocks: "length (blocks P) = length P div BlockSize + 1"
proof (induction P rule: blocks.induct)
  case (1 P)
  then show ?case by (subst blocks.simps) (auto simp: le_div_geq)
qed

lemma length_number [simp]: "length (number n bs) = length bs"
  by (induction n bs rule: number.induct) auto

text \<open>
  \<open>copies r ps full ds\<close>: the datagrams \<open>ds\<close> are the packets \<open>ps\<close> in order, each repeated at least
  once and at most \<open>r\<close> times, up to some point (\<open>full\<close>: all of them).
\<close>

inductive copies :: "nat \<Rightarrow> byte list list \<Rightarrow> bool \<Rightarrow> byte list list \<Rightarrow> bool" for r where
  copies_all: "copies r [] True []"
| copies_stop: "k \<le> r \<Longrightarrow> copies r (p # ps) False (replicate k p)"
| copies_more: "0 < k \<Longrightarrow> k \<le> r \<Longrightarrow> copies r ps full ds \<Longrightarrow> copies r (p # ps) full (replicate k p @ ds)"

inductive_cases copies_NilE: "copies r [] full ds"
inductive_cases copies_ConsE: "copies r (p # ps) full ds"

lemma copies_hd: "copies r ps full ds \<Longrightarrow> ds \<noteq> [] \<Longrightarrow> ps \<noteq> [] \<and> hd ds = hd ps"
  by (induction rule: copies.induct) (auto simp: hd_append)

lemma remdups_adj_copies:
  "copies r ps full ds \<Longrightarrow> ps = number n bs \<Longrightarrow>
    \<exists>m\<le>length bs. remdups_adj ds = take m ps \<and> (full \<longrightarrow> m = length bs)"
proof (induction arbitrary: n bs rule: copies.induct)
  case copies_all
  then show ?case by (cases bs) auto
next
  case (copies_stop k p ps)
  then show ?case
    using remdups_adj_replicate_append [of k "[]" p]
    by (cases bs; cases k) (auto intro: exI [of _ 0] exI [of _ 1])
next
  case (copies_more k ps full ds p)
  then obtain b bs' where bs: "bs = b # bs'" "p = data_bytes (n + 1) b" "ps = number (n + 1) bs'"
    by (cases bs) auto
  with copies_more.IH obtain m where m: "m \<le> length bs'" "remdups_adj ds = take m ps"
    "full \<longrightarrow> m = length bs'"
    by blast
  have "ds = [] \<or> hd ds \<noteq> p"
    using copies_hd [OF copies_more.hyps(3)] bs by (cases bs') auto
  with copies_more.hyps m bs show ?case
    by (intro exI [of _ "Suc m"]) (simp add: remdups_adj_replicate_append)
qed

lemma stream_number:
  "\<forall>b\<in>set bs. length b \<le> BlockSize \<Longrightarrow>
    concat (map (\<lambda>d. stream (Payload (fst (Data_UnmarshalBinary d0 d)))) (number n bs)) = concat bs"
  by (induction n bs rule: number.induct) (auto simp: Data_Unmarshal_bytes)

subsection \<open>What the handler sends\<close>

lemma send_loop_done: "n \<noteq> DatagramSize \<Longrightarrow> send_loop r n st evs = (SentBlocks (Block (dataPkt st)), st)"
  by (subst send_loop.simps) simp

lemma send_loop_block:
  assumes "fin (Payload (dataPkt st)) = EOF" "stream (Payload (dataPkt st)) = P"
    "Block (dataPkt st) + 1 = n" "data_bytes n (take BlockSize P) = p"
  obtains rd where "stream rd = drop BlockSize P" "fin rd = EOF"
    "send_loop r DatagramSize st evs =
      (case retry_loop r p (st\<lparr>dataPkt := \<lparr>Block = n, Payload = rd\<rparr>\<rparr>) evs of
         (NextPacket, st', evs') \<Rightarrow> send_loop r (length p) st' evs'
       | (Return x, st', evs') \<Rightarrow> (x, st'))"
proof -
  obtain rd where rd: "Data_MarshalBinary (dataPkt st) = (\<lparr>Block = Block (dataPkt st) + 1, Payload = rd\<rparr>,
       Inr (data_bytes (Block (dataPkt st) + 1) (take BlockSize (stream (Payload (dataPkt st))))))"
    "stream rd = drop BlockSize (stream (Payload (dataPkt st)))" "fin rd = fin (Payload (dataPkt st))"
    using assms Data_Marshal_stream by blast
  show ?thesis
  proof (rule that [of rd])
    show "send_loop r DatagramSize st evs =
      (case retry_loop r p (st\<lparr>dataPkt := \<lparr>Block = n, Payload = rd\<rparr>\<rparr>) evs of
         (NextPacket, st', evs') \<Rightarrow> send_loop r (length p) st' evs'
       | (Return x, st', evs') \<Rightarrow> (x, st'))"
      by (subst send_loop.simps) (use rd assms in simp)
  qed (use rd assms in simp_all)
qed

lemma send_loop_copies:
  assumes "send_loop r DatagramSize st evs = (out, st')" "fin (Payload (dataPkt st)) = EOF"
    "stream (Payload (dataPkt st)) = P"
  shows "\<exists>ds full. sent st' = sent st @ ds \<and> copies r (number (Block (dataPkt st)) (blocks P)) full ds \<and>
    full = (\<exists>b. out = SentBlocks b) \<and>
    (\<forall>b. out = SentBlocks b \<longrightarrow> b = Block (dataPkt st) + of_nat (length (blocks P))) \<and>
    (\<forall>e. out \<noteq> PreparingErr e)"
  using assms
proof (induction P arbitrary: st evs rule: blocks.induct)
  case (1 P)
  let ?n = "Block (dataPkt st) + 1"
  let ?p = "data_bytes ?n (take BlockSize P)"
  obtain rd where rd: "stream rd = drop BlockSize P" "fin rd = EOF"
    "send_loop r DatagramSize st evs =
      (case retry_loop r ?p (st\<lparr>dataPkt := \<lparr>Block = ?n, Payload = rd\<rparr>\<rparr>) evs of
         (NextPacket, st', evs') \<Rightarrow> send_loop r (length ?p) st' evs'
       | (Return x, st', evs') \<Rightarrow> (x, st'))"
    by (rule send_loop_block [OF "1.prems"(2,3) refl refl])
  obtain res st1 evs1 where res:
    "retry_loop r ?p (st\<lparr>dataPkt := \<lparr>Block = ?n, Payload = rd\<rparr>\<rparr>) evs = (res, st1, evs1)"
    by (metis prod_cases3)
  then obtain k used where k: "k \<le> r" "progress ?p k (st\<lparr>dataPkt := \<lparr>Block = ?n, Payload = rd\<rparr>\<rparr>) st1"
    "ended k (st\<lparr>dataPkt := \<lparr>Block = ?n, Payload = rd\<rparr>\<rparr>) res st1"
    by (rule retry_loop_spec)
  from k(2) have st1: "sent st1 = sent st @ replicate k ?p" "dataPkt st1 = \<lparr>Block = ?n, Payload = rd\<rparr>"
    by (simp_all add: progress_def)
  obtain bs where bs: "blocks P = take BlockSize P # bs"
    "bs = (if length P < BlockSize then [] else blocks (drop BlockSize P))"
    using blocks_unfold [of P] that by blast
  show ?case
  proof (cases res)
    case (Return x)
    with res rd "1.prems" have "out = x" "st' = st1" by auto
    with Return k st1 show ?thesis
      by (auto simp: bs(1) ended_def intro!: exI [of _ "replicate k ?p"] copies_stop)
  next
    case NextPacket
    with k have "0 < k" by (simp add: ended_def)
    show ?thesis
    proof (cases "length P < BlockSize")
      case True
      with NextPacket res rd "1.prems" have "out = SentBlocks ?n" "st' = st1"
        by (auto simp: send_loop_done DatagramSize_def st1)
      with True k \<open>0 < k\<close> st1 bs copies_more [OF \<open>0 < k\<close> k(1) copies_all, of ?p] show ?thesis
        by auto
    next
      case False
      then have "length ?p = DatagramSize" by (simp add: DatagramSize_def)
      with NextPacket res rd "1.prems" have rec: "send_loop r DatagramSize st1 evs1 = (out, st')" by simp
      obtain ds full where "sent st' = sent st1 @ ds" "copies r (number ?n bs) full ds"
        "full = (\<exists>b. out = SentBlocks b)"
        "\<forall>b. out = SentBlocks b \<longrightarrow> b = ?n + of_nat (length bs)" "\<forall>e. out \<noteq> PreparingErr e"
        using "1.IH" [OF False rec] rd(1,2) st1 False by (auto simp: bs(2))
      with copies_more [OF \<open>0 < k\<close> k(1), of "number ?n bs" full ds ?p] st1 show ?thesis
        by (auto simp: bs(1))
    qed
  qed
qed

subsection \<open>The handler returns\<close>

lemma send_loop_returns:
  assumes "fin (Payload (dataPkt st)) = EOF" "stream (Payload (dataPkt st)) = P"
    "r * length (blocks P) \<le> length evs"
  shows "fst (send_loop r DatagramSize st evs) \<noteq> Waiting"
  using assms
proof (induction P arbitrary: st evs rule: blocks.induct)
  case (1 P)
  let ?n = "Block (dataPkt st) + 1"
  let ?p = "data_bytes ?n (take BlockSize P)"
  obtain rd where rd: "stream rd = drop BlockSize P" "fin rd = EOF"
    "send_loop r DatagramSize st evs =
      (case retry_loop r ?p (st\<lparr>dataPkt := \<lparr>Block = ?n, Payload = rd\<rparr>\<rparr>) evs of
         (NextPacket, st', evs') \<Rightarrow> send_loop r (length ?p) st' evs'
       | (Return x, st', evs') \<Rightarrow> (x, st'))"
    by (rule send_loop_block [OF "1.prems"(1,2) refl refl])
  obtain res st1 evs1 where res:
    "retry_loop r ?p (st\<lparr>dataPkt := \<lparr>Block = ?n, Payload = rd\<rparr>\<rparr>) evs = (res, st1, evs1)"
    by (metis prod_cases3)
  then obtain k used where k: "k \<le> r" "progress ?p k (st\<lparr>dataPkt := \<lparr>Block = ?n, Payload = rd\<rparr>\<rparr>) st1"
    "ended k (st\<lparr>dataPkt := \<lparr>Block = ?n, Payload = rd\<rparr>\<rparr>) res st1"
    "evs = used @ evs1" "length used \<le> r" "res = Return Waiting \<longrightarrow> evs1 = [] \<and> length used < r"
    by (rule retry_loop_spec)
  have len: "r \<le> length evs" using "1.prems"(3) by (simp add: blocks_unfold [of P])
  show ?case
  proof (cases res)
    case (Return x)
    with k len rd(3) res show ?thesis by auto
  next
    case NextPacket
    show ?thesis
    proof (cases "length P < BlockSize")
      case True
      with NextPacket rd(3) res show ?thesis by (simp add: send_loop_done DatagramSize_def)
    next
      case False
      then have "length ?p = DatagramSize" by (simp add: DatagramSize_def)
      moreover have "dataPkt st1 = \<lparr>Block = ?n, Payload = rd\<rparr>" using k(2) by (simp add: progress_def)
      moreover have "r * length (blocks (drop BlockSize P)) \<le> length evs1"
        using "1.prems"(3) k(4,5) False by (simp add: blocks_unfold [of P])
      ultimately show ?thesis using "1.IH" [OF False, of st1 evs1] NextPacket rd res by simp
    qed
  qed
qed

subsection \<open>Runs in which every block is acknowledged in time\<close>

text \<open>
  An answer that does not help: a read timeout (\<open>None\<close>), or the acknowledgment of another block.
  \<open>fair_events n lss\<close> is the run that gives block \<open>n + 1\<close> the answers in the first list of \<open>lss\<close> and
  then acknowledges it, the next block those of the second list, and so on.
\<close>

fun unhelpful :: "u16 option \<Rightarrow> attempt" where
  "unhelpful None = ReadErr Timeout"
| "unhelpful (Some m) = Received (ack_bytes m)"

fun fair_events :: "u16 \<Rightarrow> u16 option list list \<Rightarrow> attempt list" where
  "fair_events n [] = []"
| "fair_events n (ls # lss) = map unhelpful ls @ Received (ack_bytes (n + 1)) # fair_events (n + 1) lss"

fun fair_run :: "nat \<Rightarrow> u16 \<Rightarrow> u16 option list list \<Rightarrow> bool" where
  "fair_run r n [] = True"
| "fair_run r n (ls # lss) = (length ls < r \<and> Some (n + 1) \<notin> set ls \<and> fair_run r (n + 1) lss)"

lemma length_ack_bytes [simp]: "length (ack_bytes n) = 4"
  by (simp add: ack_bytes_def)

lemma overlay_ack [simp]:
  "4 \<le> length buf \<Longrightarrow> Ack_UnmarshalBinary a (overlay (ack_bytes m) buf) = (m, None)"
  by (rule ack.unmarshal_overlay) (simp_all add: codec_simps)

lemma retry_loop_fair:
  assumes "length ls < i" "Some (Block (dataPkt st)) \<notin> set ls" "4 \<le> length (hbuf st)"
  shows "\<exists>st'. retry_loop i data st (map unhelpful ls @ Received (ack_bytes (Block (dataPkt st))) # evs) =
    (NextPacket, st', evs) \<and> progress data (Suc (length ls)) st st'"
  using assms
proof (induction ls arbitrary: i st)
  case Nil
  then obtain j where "i = Suc j" by (cases i) auto
  with Nil show ?case by (auto simp: Let_def progress_def)
next
  case (Cons l ls)
  then obtain j where j: "i = Suc j" by (cases i) auto
  let ?evs = "map unhelpful ls @ Received (ack_bytes (Block (dataPkt st))) # evs"
  obtain st1 where st1: "retry_loop i data st (unhelpful l # ?evs) = retry_loop j data st1 ?evs"
    "progress data 1 st st1"
  proof (cases l)
    case None
    with j show ?thesis
      by (intro that [of "st\<lparr>sent := sent st @ [data]\<rparr>"]) (auto simp: progress_def)
  next
    case (Some m)
    with j Cons.prems show ?thesis
      by (intro that [of "st\<lparr>sent := sent st @ [data], hbuf := overlay (ack_bytes m) (hbuf st), ackPkt := m\<rparr>"])
        (auto simp: progress_def Let_def)
  qed
  from st1(2) have "Block (dataPkt st1) = Block (dataPkt st)" "length (hbuf st1) = length (hbuf st)"
    by (simp_all add: progress_def)
  with Cons.IH [of j st1] Cons.prems j obtain st' where
    "retry_loop j data st1 ?evs = (NextPacket, st', evs)" "progress data (Suc (length ls)) st1 st'"
    by auto
  with st1 progress_trans [OF st1(2)] show ?case by (auto intro!: exI [of _ st'])
qed

lemma send_loop_fair:
  assumes "fin (Payload (dataPkt st)) = EOF" "stream (Payload (dataPkt st)) = P" "4 \<le> length (hbuf st)"
    "length lss = length (blocks P)" "fair_run r (Block (dataPkt st)) lss"
  shows "\<exists>st'. send_loop r DatagramSize st (fair_events (Block (dataPkt st)) lss @ evs) =
      (SentBlocks (Block (dataPkt st) + of_nat (length lss)), st') \<and>
    sent st' = sent st @
      concat (map2 (\<lambda>ls p. replicate (Suc (length ls)) p) lss (number (Block (dataPkt st)) (blocks P)))"
  using assms
proof (induction P arbitrary: st lss rule: blocks.induct)
  case (1 P)
  let ?n = "Block (dataPkt st) + 1"
  let ?p = "data_bytes ?n (take BlockSize P)"
  from "1.prems"(4) obtain ls lss' where lss: "lss = ls # lss'" by (cases lss) auto
  let ?evs = "fair_events ?n lss' @ evs"
  obtain rd where rd: "stream rd = drop BlockSize P" "fin rd = EOF"
    "send_loop r DatagramSize st (fair_events (Block (dataPkt st)) lss @ evs) =
      (case retry_loop r ?p (st\<lparr>dataPkt := \<lparr>Block = ?n, Payload = rd\<rparr>\<rparr>)
          (fair_events (Block (dataPkt st)) lss @ evs) of
         (NextPacket, st', evs') \<Rightarrow> send_loop r (length ?p) st' evs'
       | (Return x, st', evs') \<Rightarrow> (x, st'))"
    by (rule send_loop_block [OF "1.prems"(1,2) refl refl])
  obtain st1 where st1:
    "retry_loop r ?p (st\<lparr>dataPkt := \<lparr>Block = ?n, Payload = rd\<rparr>\<rparr>)
      (map unhelpful ls @ Received (ack_bytes ?n) # ?evs) = (NextPacket, st1, ?evs)"
    "progress ?p (Suc (length ls)) (st\<lparr>dataPkt := \<lparr>Block = ?n, Payload = rd\<rparr>\<rparr>) st1"
    using retry_loop_fair [of ls r "st\<lparr>dataPkt := \<lparr>Block = ?n, Payload = rd\<rparr>\<rparr>" ?p ?evs] "1.prems"(3,5)
    by (auto simp: lss)
  from st1(2) have st1': "sent st1 = sent st @ replicate (Suc (length ls)) ?p"
    "dataPkt st1 = \<lparr>Block = ?n, Payload = rd\<rparr>" "4 \<le> length (hbuf st1)"
    using "1.prems"(3) by (simp_all add: progress_def)
  have step: "send_loop r DatagramSize st (fair_events (Block (dataPkt st)) lss @ evs) =
      send_loop r (length ?p) st1 ?evs"
    using rd(3) st1(1) by (simp add: lss)
  show ?case
  proof (cases "length P < BlockSize")
    case True
    with "1.prems"(4) lss have "lss' = []" by (simp add: blocks_unfold [of P])
    with True step st1' lss show ?thesis
      by (simp add: send_loop_done DatagramSize_def blocks_unfold [of P])
  next
    case False
    then have "length ?p = DatagramSize" by (simp add: DatagramSize_def)
    moreover obtain st' where "send_loop r DatagramSize st1 ?evs = (SentBlocks (?n + of_nat (length lss')), st')"
      "sent st' = sent st1 @ concat (map2 (\<lambda>ls p. replicate (Suc (length ls)) p) lss'
        (number ?n (blocks (drop BlockSize P))))"
      using "1.IH" [OF False, of st1 lss'] rd(1,2) st1' "1.prems"(4,5) lss False
      by (auto simp: blocks_unfold [of P])
    ultimately show ?thesis using step st1' lss False
      by (auto simp: blocks_unfold [of P] add_ac)
  qed
qed

subsection \<open>Later events do not change a finished run\<close>

lemma retry_loop_append:
  "retry_loop i data st evs = (res, st', evs') \<Longrightarrow> res \<noteq> Return Waiting \<Longrightarrow>
    retry_loop i data st (evs @ post) = (res, st', evs' @ post)"
  by (induction i data st evs rule: retry_loop.induct)
    (auto split: prod.splits option.splits)

lemma send_loop_append:
  "send_loop r n st evs = (out, st') \<Longrightarrow> out \<noteq> Waiting \<Longrightarrow> send_loop r n st (evs @ post) = (out, st')"
proof (induction r n st evs rule: send_loop.induct)
  case (1 r n st evs)
  show ?case
  proof (cases "n = DatagramSize")
    case False
    with "1.prems" show ?thesis by (auto simp: send_loop_done)
  next
    case True
    obtain d m where m: "Data_MarshalBinary (dataPkt st) = (d, m)" by fastforce
    show ?thesis
    proof (cases m)
      case (Inl e)
      with "1.prems" True m show ?thesis
        by (simp add: send_loop.simps [of r DatagramSize st evs] send_loop.simps [of r DatagramSize st "evs @ post"])
    next
      case (Inr data)
      obtain res st1 evs1 where res: "retry_loop r data (st\<lparr>dataPkt := d\<rparr>) evs = (res, st1, evs1)"
        by (metis prod_cases3)
      have eqs: "send_loop r n st es = (case retry_loop r data (st\<lparr>dataPkt := d\<rparr>) es of
          (NextPacket, st', evs') \<Rightarrow> send_loop r (length data) st' evs'
        | (Return x, st', evs') \<Rightarrow> (x, st'))" for es
        using True m Inr by (subst send_loop.simps) simp
      have "res \<noteq> Return Waiting" using "1.prems" eqs [of evs] res by (cases res) auto
      with res have "retry_loop r data (st\<lparr>dataPkt := d\<rparr>) (evs @ post) = (res, st1, evs1 @ post)"
        by (rule retry_loop_append)
      moreover have "send_loop r (length data) st1 (evs1 @ post) = (out, st')" if "res = NextPacket"
        using "1.IH" [of d m data res "(st1, evs1)" st1 evs1] True m Inr res that "1.prems" eqs [of evs] by auto
      ultimately show ?thesis using "1.prems" eqs [of evs] eqs [of "evs @ post"] res
        by (cases res) auto
    qed
  qed
qed

subsection \<open>The listening loop\<close>

datatype from_result =
    Datagram string "byte list"
  | FromErr go_error

text \<open>
  \<open>rrq\<close> is the one variable the loop reuses; each datagram is read into a new, zeroed buffer
  and the whole buffer is parsed.  The result lists the handlers started, with their
  arguments, and the error with which the loop returned (\<open>None\<close>: it is still listening).
\<close>

fun serve_loop :: "ReadReq \<Rightarrow> from_result list \<Rightarrow> (string \<times> ReadReq) list \<times> go_error option" where
  "serve_loop rrq [] = ([], None)"
| "serve_loop rrq (FromErr e # evs) = ([], Some e)"
| "serve_loop rrq (Datagram addr p # evs) =
     (let buf = overlay p (replicate DatagramSize 0) in
      case ReadReq_UnmarshalBinary rrq buf of
        (rrq, Some err) \<Rightarrow> serve_loop rrq evs
      | (rrq, None) \<Rightarrow> (let (hs, r) = serve_loop rrq evs in ((addr, rrq) # hs, r)))"

definition Serve :: "Server \<Rightarrow> from_result list option \<Rightarrow>
    Server \<times> (string \<times> ReadReq) list \<times> go_error option" where
  "Serve s conn =
     (case conn of
        None \<Rightarrow> (s, [], Some (ErrText ''nil connection''))
      | Some evs \<Rightarrow>
          if srv_Payload s = None then (s, [], Some (ErrText ''Payload is required''))
          else
            let s = (if Retries s = 0 then s\<lparr>Retries := 10\<rparr> else s);
                s = (if srv_Timeout s = 0 then s\<lparr>srv_Timeout := 6 * second\<rparr> else s)
            in (s, serve_loop \<lparr>Filename = '''', Mode = ''''\<rparr> evs))"

definition ListenAndServe :: "Server \<Rightarrow> from_result list result \<Rightarrow>
    Server \<times> (string \<times> ReadReq) list \<times> go_error option" where
  "ListenAndServe s listen =
     (case listen of
        Inl err \<Rightarrow> (s, [], Some err)
      | Inr conn \<Rightarrow> Serve s (Some conn))"

text \<open>\<open>main\<close> reads the payload file and serves it; it always ends in \<open>log.Fatal\<close>.\<close>

definition tftp_main :: "byte list result \<Rightarrow> from_result list result \<Rightarrow>
    Server option \<times> (string \<times> ReadReq) list \<times> go_error option" where
  "tftp_main readFile listen =
     (case readFile of
        Inl err \<Rightarrow> (None, [], Some err)
      | Inr p \<Rightarrow>
          (case ListenAndServe \<lparr>srv_Payload = Some p, Retries = 0, srv_Timeout = 0\<rparr> listen of
             (s, hs, r) \<Rightarrow> (Some s, hs, r)))"

text \<open>The request a datagram carries, by itself: what the loop should hand to a handler.\<close>

fun request_of :: "from_result \<Rightarrow> (string \<times> ReadReq) option" where
  "request_of (FromErr e) = None"
| "request_of (Datagram addr p) =
     (case ReadReq_UnmarshalBinary \<lparr>Filename = '''', Mode = ''''\<rparr> (overlay p (replicate DatagramSize 0)) of
        (q, None) \<Rightarrow> Some (addr, q)
      | (q, Some err) \<Rightarrow> None)"

fun is_datagram :: "from_result \<Rightarrow> bool" where
  "is_datagram (Datagram addr p) = True"
| "is_datagram (FromErr e) = False"

lemma ReadReq_Unmarshal_fresh:
  "ReadReq_UnmarshalBinary q p = (q', None) \<Longrightarrow> ReadReq_UnmarshalBinary r p = (q', None)"
  using ReadReq_Unmarshal_ok [of q p q'] ReadReq_Unmarshal_bytes [of "Filename q'" "Mode q'" r]
  by (auto simp: valid_rrq_def)

lemma serve_loop_requests:
  "fst (serve_loop rrq evs) = List.map_filter request_of (takeWhile is_datagram evs)"
proof (induction rrq evs rule: serve_loop.induct)
  case (3 rrq addr p evs)
  let ?buf = "overlay p (replicate DatagramSize 0)"
  obtain q err where q: "ReadReq_UnmarshalBinary rrq ?buf = (q, err)" by fastforce
  obtain q0 err0 where q0: "ReadReq_UnmarshalBinary \<lparr>Filename = '''', Mode = ''''\<rparr> ?buf = (q0, err0)"
    by fastforce
  show ?case
  proof (cases err)
    case None
    with q q0 have "q0 = q" "err0 = None"
      using ReadReq_Unmarshal_fresh [of rrq ?buf q "\<lparr>Filename = [], Mode = []\<rparr>"] by simp_all
    with None q q0 3 show ?thesis by (cases "serve_loop q evs") (simp add: map_filter_simps)
  next
    case (Some e)
    with q q0 have "err0 \<noteq> None"
      using ReadReq_Unmarshal_fresh [of "\<lparr>Filename = [], Mode = []\<rparr>" ?buf q0 rrq] by auto
    with Some q q0 3 show ?thesis by (auto simp: map_filter_simps)
  qed
qed (simp_all add: map_filter_simps)

subsection \<open>Properties of the handler\<close>

lemma take_number: "take m (number n bs) = number n (take m bs)"
  by (induction n bs arbitrary: m rule: number.induct) (auto simp: take_Cons split: nat.splits)

lemma reassemble_copies:
  assumes "copies r (number n (blocks P)) full ds"
  shows "\<exists>m. reassemble ds = concat (take m (blocks P)) \<and> (full \<longrightarrow> reassemble ds = P)"
proof -
  obtain m where m: "m \<le> length (blocks P)" "remdups_adj ds = number n (take m (blocks P))"
    "full \<longrightarrow> m = length (blocks P)"
    using remdups_adj_copies [OF assms refl] by (auto simp: take_number)
  have "\<forall>b\<in>set (take m (blocks P)). length b \<le> BlockSize"
    using blocks_length by (meson in_set_takeD)
  with m(2) have "reassemble ds = concat (take m (blocks P))"
    unfolding reassemble_def by (simp only: stream_number)
  with m(3) show ?thesis by (auto simp: concat_blocks)
qed

lemma prefix_concat_take: "prefix (concat (take m bs)) (concat bs)"
  by (metis append_take_drop_id concat_append prefixI)

lemma init_hstate_simps [simp]:
  "sent (init_hstate s) = []"
  "Block (dataPkt (init_hstate s)) = 0"
  "fin (Payload (dataPkt (init_hstate s))) = EOF"
  "length (hbuf (init_hstate s)) = DatagramSize"
  "srv_Payload s = Some P \<Longrightarrow> stream (Payload (dataPkt (init_hstate s))) = P"
  by (simp_all add: init_hstate_def)

lemma handle_copies:
  assumes "srv_Payload s = Some P" "handle s None evs = (out, st)"
  shows "copies (unat (Retries s)) (number 0 (blocks P)) (\<exists>b. out = SentBlocks b) (sent st)"
    "out = SentBlocks b \<Longrightarrow> b = of_nat (length (blocks P))" "out \<noteq> PreparingErr e"
  using send_loop_copies [of "unat (Retries s)" "init_hstate s" evs out st P] assms
  by (auto simp: handle_def)

text \<open>
  C1: a transfer that the handler reports as complete delivered the payload.  The datagrams it
  sent are the packets of the payload's blocks in order, each at least once and at most
  \<open>Retries\<close> times; a receiver that drops repetitions and joins the data has exactly the payload;
  and the block count it reports is the number of blocks modulo 65536.
\<close>

theorem transfer_complete:
  assumes "srv_Payload s = Some P" and "handle s None evs = (SentBlocks b, st)"
  shows "copies (unat (Retries s)) (number 0 (blocks P)) True (sent st) \<and>
    reassemble (sent st) = P \<and> b = of_nat (length P div BlockSize + 1)"
proof -
  have c: "copies (unat (Retries s)) (number 0 (blocks P)) True (sent st)"
    using handle_copies(1) [OF assms] by simp
  moreover from c have "reassemble (sent st) = P" using reassemble_copies by blast
  moreover have "b = of_nat (length P div BlockSize + 1)"
    using handle_copies(2) [OF assms refl] length_blocks [of P] by simp
  ultimately show ?thesis by blast
qed

definition sample_server :: Server where
  "sample_server = \<lparr>srv_Payload = Some [1, 2, 3], Retries = 3, srv_Timeout = 6 * second\<rparr>"

definition sample_run :: "attempt list" where
  "sample_run = [ReadErr Timeout, Received [0, 4, 0, 7], Received [0, 4, 0, 1]]"

lemma sample_outcome: "fst (handle sample_server None sample_run) = SentBlocks 1"
  by code_simp

theorem transfer_complete_witness:
  "srv_Payload sample_server = Some [1, 2, 3] \<and>
   handle sample_server None sample_run = (SentBlocks 1, snd (handle sample_server None sample_run)) \<and>
   reassemble (sent (snd (handle sample_server None sample_run))) = [1, 2, 3]"
proof -
  have p: "srv_Payload sample_server = Some [1, 2, 3]" by (simp add: sample_server_def)
  have h: "handle sample_server None sample_run = (SentBlocks 1, snd (handle sample_server None sample_run))"
    using sample_outcome by (metis prod.collapse)
  show ?thesis using transfer_complete [OF p h] p h by simp
qed

text \<open>
  C2: whatever the network does, and however the handler ends, what it has sent so far is in
  order: the packets of the first blocks of the payload, no block sent before the previous one
  was, none more than \<open>Retries\<close> times, all of them exactly when it reports success.  What a
  receiver joins from them is a prefix of the payload, and building a packet never fails.
\<close>

theorem transfer_in_order:
  assumes "srv_Payload s = Some P" and "handle s dial evs = (out, st)"
  shows "copies (unat (Retries s)) (number 0 (blocks P)) (\<exists>b. out = SentBlocks b) (sent st) \<and>
    prefix (reassemble (sent st)) P \<and> (\<forall>e. out \<noteq> PreparingErr e)"
proof (cases dial)
  case None
  with assms handle_copies [of s P evs out st]
  have c: "copies (unat (Retries s)) (number 0 (blocks P)) (\<exists>b. out = SentBlocks b) (sent st)"
    "\<forall>e. out \<noteq> PreparingErr e"
    by auto
  then show ?thesis
    using reassemble_copies [OF c(1)] prefix_concat_take concat_blocks by metis
next
  case (Some e)
  with assms have "out = DialErr e" "sent st = []" by (auto simp: handle_def)
  moreover have "copies (unat (Retries s)) (number 0 (blocks P)) False []"
    using copies_stop [of 0 "unat (Retries s)"] by (simp add: blocks_unfold [of P])
  ultimately show ?thesis by (simp add: reassemble_def)
qed

theorem transfer_in_order_witness:
  "fst (handle sample_server None [ReadErr Timeout, WriteErr (ErrText ''refused'')]) = WriteFailed (ErrText ''refused'') \<and>
   prefix (reassemble (sent (snd (handle sample_server None [ReadErr Timeout, WriteErr (ErrText ''refused'')])))) [1, 2, 3]"
proof -
  let ?r = "handle sample_server None [ReadErr Timeout, WriteErr (ErrText ''refused'')]"
  have p: "srv_Payload sample_server = Some [1, 2, 3]" by (simp add: sample_server_def)
  have o: "fst ?r = WriteFailed (ErrText ''refused'')" by code_simp
  have h: "?r = (WriteFailed (ErrText ''refused''), snd ?r)" using o by (metis prod.collapse)
  show ?thesis using transfer_in_order [OF p h] o by simp
qed

text \<open>
  C10: the handler always returns.  After \<open>Retries\<close> attempts for each of the payload's blocks,
  whatever their outcome, it is not waiting any more; so no behaviour of a client keeps the
  goroutine alive longer than that many read deadlines.
\<close>

theorem handle_returns:
  assumes "srv_Payload s = Some P"
    and "unat (Retries s) * (length P div BlockSize + 1) \<le> length evs"
  shows "fst (handle s dial evs) \<noteq> Waiting"
  using assms send_loop_returns [of "init_hstate s" P "unat (Retries s)" evs]
  by (auto simp: handle_def length_blocks split: option.splits)

theorem handle_returns_witness:
  "fst (handle sample_server None (replicate 3 (Received []))) \<noteq> Waiting"
  by (rule handle_returns [of _ "[1, 2, 3]"]) (simp_all add: sample_server_def)

text \<open>
  C11: a transfer over a network that is fair enough succeeds.  If, for each block, fewer than
  \<open>Retries\<close> attempts time out or are answered with the acknowledgment of another block, and then
  the block is acknowledged, the handler ends with success and has sent each block once more
  than it was disappointed.
\<close>

theorem fair_transfer:
  assumes "srv_Payload s = Some P" and "length lss = length (blocks P)"
    and "fair_run (unat (Retries s)) 0 lss"
  shows "\<exists>st. handle s None (fair_events 0 lss @ evs) = (SentBlocks (of_nat (length lss)), st) \<and>
    sent st = concat (map2 (\<lambda>ls p. replicate (Suc (length ls)) p) lss (number 0 (blocks P)))"
  using send_loop_fair [of "init_hstate s" P lss "unat (Retries s)" evs] assms
  by (simp add: handle_def DatagramSize_def)

theorem fair_transfer_witness:
  "\<exists>st. handle sample_server None (fair_events 0 [[None, Some (7 :: u16)]] @ []) = (SentBlocks 1, st) \<and>
    sent st = concat (map2 (\<lambda>ls p. replicate (Suc (length ls)) p) [[None, Some (7 :: u16)]] (number 0 (blocks [1, 2, 3])))"
  using fair_transfer [of sample_server "[1, 2, 3]" "[[None, Some 7]]" "[]"]
  by (simp add: sample_server_def length_blocks)

lemma retry_loop_timeouts:
  "\<exists>st'. retry_loop i data st (replicate i (ReadErr Timeout) @ evs) = (Return ExhaustedRetries, st', evs) \<and>
    sent st' = sent st @ replicate i data"
  by (induction i arbitrary: st) (fastforce simp: Let_def)+

text \<open>
  \<open>Retries\<close> is the number of transmissions, not of retransmissions: a client that never
  answers gets the first packet exactly \<open>Retries\<close> times in all, then the handler gives up.  In
  particular a server with \<open>Retries\<close> = 1 never repeats a packet.
\<close>

theorem retries_counts_transmissions:
  assumes "srv_Payload s = Some P"
  shows "\<exists>st. handle s None (replicate (unat (Retries s)) (ReadErr Timeout) @ evs) = (ExhaustedRetries, st) \<and>
    sent st = replicate (unat (Retries s)) (data_bytes 1 (take BlockSize P))"
proof -
  let ?st = "init_hstate s" and ?evs = "replicate (unat (Retries s)) (ReadErr Timeout) @ evs"
  obtain rd where "send_loop (unat (Retries s)) DatagramSize ?st ?evs =
      (case retry_loop (unat (Retries s)) (data_bytes 1 (take BlockSize P))
          (?st\<lparr>dataPkt := \<lparr>Block = 1, Payload = rd\<rparr>\<rparr>) ?evs of
         (NextPacket, st', evs') \<Rightarrow> send_loop (unat (Retries s)) (length (data_bytes 1 (take BlockSize P))) st' evs'
       | (Return x, st', evs') \<Rightarrow> (x, st'))"
    by (rule send_loop_block [of ?st P 1 "data_bytes 1 (take BlockSize P)"]) (use assms in auto)
  with retry_loop_timeouts [of "unat (Retries s)" "data_bytes 1 (take BlockSize P)"
      "?st\<lparr>dataPkt := \<lparr>Block = 1, Payload = rd\<rparr>\<rparr>" evs]
  show ?thesis by (auto simp: handle_def)
qed

theorem retries_counts_transmissions_witness:
  "\<exists>st. handle sample_server None (replicate 3 (ReadErr Timeout) @ []) = (ExhaustedRetries, st) \<and>
    sent st = replicate 3 (data_bytes 1 [1, 2, 3])"
  using retries_counts_transmissions [of sample_server "[1, 2, 3]" "[]"] by (simp add: sample_server_def)

subsection \<open>Resuming a waiting handler\<close>

lemma retry_loop_resume:
  "retry_loop i data st evs = (Return Waiting, st', evs') \<Longrightarrow>
    \<exists>j<i. retry_loop i data st (evs @ post) = retry_loop (Suc j) data st' post"
proof (induction i data st evs rule: retry_loop.induct)
  case (3 i data st ev evs)
  obtain st1 r where r: "retry_body data st ev = (st1, r)" by fastforce
  show ?case
  proof (cases r)
    case None
    with r "3.prems" "3.IH" [OF r [symmetric]] show ?thesis by (auto intro: less_SucI)
  next
    case (Some x)
    with r "3.prems" retry_body_progress [OF r] show ?thesis by auto
  qed
qed auto

lemma send_loop_resume:
  "send_loop r n st evs = (Waiting, st') \<Longrightarrow>
    length (hbuf st') = length (hbuf st) \<and>
    (\<exists>j<r. \<exists>data. send_loop r n st (evs @ post) =
      (case retry_loop (Suc j) data st' post of
         (NextPacket, st2, evs2) \<Rightarrow> send_loop r (length data) st2 evs2
       | (Return x, st2, evs2) \<Rightarrow> (x, st2)))"
proof (induction r n st evs rule: send_loop.induct)
  case (1 r n st evs)
  obtain d data where m: "n = DatagramSize" "Data_MarshalBinary (dataPkt st) = (d, Inr data)"
    using "1.prems" by (subst (asm) send_loop.simps) (auto split: if_splits prod.splits sum.splits)
  obtain res st1 evs1 where res: "retry_loop r data (st\<lparr>dataPkt := d\<rparr>) evs = (res, st1, evs1)"
    by (metis prod_cases3)
  have eqs: "send_loop r n st es = (case retry_loop r data (st\<lparr>dataPkt := d\<rparr>) es of
      (NextPacket, st', evs') \<Rightarrow> send_loop r (length data) st' evs'
    | (Return x, st', evs') \<Rightarrow> (x, st'))" for es
    using m by (subst send_loop.simps) simp
  obtain k used where len: "progress data k (st\<lparr>dataPkt := d\<rparr>) st1"
    using res by (rule retry_loop_spec)
  show ?case
  proof (cases res)
    case (Return x)
    with "1.prems" eqs [of evs] res have "x = Waiting" "st1 = st'" by auto
    with retry_loop_resume [of r data "st\<lparr>dataPkt := d\<rparr>" evs st' evs1 post] Return res
    obtain j where "j < r" "retry_loop r data (st\<lparr>dataPkt := d\<rparr>) (evs @ post) = retry_loop (Suc j) data st' post"
      by auto
    with \<open>st1 = st'\<close> eqs [of "evs @ post"] len show ?thesis
      by (intro conjI exI [of _ j] exI [of _ data]) (simp_all add: progress_def)
  next
    case NextPacket
    with res have "retry_loop r data (st\<lparr>dataPkt := d\<rparr>) (evs @ post) = (res, st1, evs1 @ post)"
      by (simp add: retry_loop_append)
    with NextPacket "1.IH" [of d "Inr data" data res "(st1, evs1)" st1 evs1] m res "1.prems" eqs [of evs]
      eqs [of "evs @ post"] len
    show ?thesis by (auto simp: progress_def)
  qed
qed

text \<open>
  an error packet ends the transfer at once.  Whenever the handler is waiting, an error
  packet from the client makes it return the client's message: the one datagram of the current
  attempt is the last it sends, and nothing that arrives later matters.
\<close>

theorem client_error_stops:
  assumes "handle s None pre = (Waiting, st)" and "NUL \<notin> set m" and "length m + 5 \<le> DatagramSize"
  shows "\<exists>st' d. handle s None (pre @ Received (err_bytes c m) # post) = (ClientErr m, st') \<and>
    sent st' = sent st @ [d]"
proof -
  let ?r = "unat (Retries s)"
  from assms(1) have w: "send_loop ?r DatagramSize (init_hstate s) pre = (Waiting, st)"
    by (simp add: handle_def)
  obtain j data where j: "send_loop ?r DatagramSize (init_hstate s) (pre @ Received (err_bytes c m) # post) =
      (case retry_loop (Suc j) data st (Received (err_bytes c m) # post) of
         (NextPacket, st2, evs2) \<Rightarrow> send_loop ?r (length data) st2 evs2
       | (Return x, st2, evs2) \<Rightarrow> (x, st2))" "length (hbuf st) = DatagramSize"
    using send_loop_resume [OF w, of "Received (err_bytes c m) # post"] by auto
  let ?buf = "overlay (err_bytes c m) (hbuf st)"
  have buf: "?buf = err_bytes c m @ drop (length (err_bytes c m)) (hbuf st)"
    using assms(3) j(2) by (intro overlay_fits) (simp add: err_bytes_def)
  obtain a e where a: "Ack_UnmarshalBinary (ackPkt st) ?buf = (a, Some e)"
    using Ack_Unmarshal_err unfolding buf by (metis not_None_eq prod.collapse)
  have "Err_UnmarshalBinary (errPkt st) ?buf = (\<lparr>Error = c, Message = m\<rparr>, None)"
    unfolding buf by (rule Err_Unmarshal_bytes [OF assms(2)])
  with a j show ?thesis by (auto simp: handle_def Let_def)
qed

theorem client_error_stops_witness:
  "\<exists>st' d. handle sample_server None ([ReadErr Timeout] @ Received (err_bytes 3 ''disk full'') # [ReadErr Timeout]) =
      (ClientErr ''disk full'', st') \<and> sent st' = sent (snd (handle sample_server None [ReadErr Timeout])) @ [d]"
proof -
  have w: "fst (handle sample_server None [ReadErr Timeout]) = Waiting" by code_simp
  show ?thesis
    by (rule client_error_stops) (use w in \<open>simp_all add: prod_eq_iff NUL_def DatagramSize_def\<close>)
qed

subsection \<open>Properties of the listening loop\<close>

text \<open>
  C12: \<open>Serve\<close> starts one handler for every datagram that is a valid read request, in the order of
  arrival and with the address it came from, up to the first error of the socket, which it
  returns.  What a handler gets is read off its own datagram alone, although the loop parses
  every datagram into the same variable.  The handlers run with at least one attempt.
\<close>

theorem serve_starts_requests:
  assumes "srv_Payload s = Some P"
  shows "\<exists>s' hs r. Serve s (Some evs) = (s', hs, r) \<and>
    hs = List.map_filter request_of (takeWhile is_datagram evs) \<and>
    (r = None) = list_all is_datagram evs \<and>
    srv_Payload s' = Some P \<and> Retries s' \<noteq> 0 \<and> srv_Timeout s' \<noteq> 0"
proof -
  have err: "(snd (serve_loop q evs) = None) = list_all is_datagram evs" for q
    by (induction q evs rule: serve_loop.induct) (auto simp: Let_def split: prod.splits option.splits)
  show ?thesis
    using assms serve_loop_requests [of "\<lparr>Filename = [], Mode = []\<rparr>" evs] err [of "\<lparr>Filename = [], Mode = []\<rparr>"]
    by (cases "serve_loop \<lparr>Filename = [], Mode = []\<rparr> evs") (auto simp: Serve_def Let_def second_def)
qed

theorem serve_starts_requests_witness:
  "\<exists>s' hs r. Serve sample_server (Some [Datagram ''c'' [0, 9], FromErr EOF]) = (s', hs, r) \<and>
    hs = List.map_filter request_of (takeWhile is_datagram [Datagram ''c'' [0, 9], FromErr EOF]) \<and>
    (r = None) = list_all is_datagram [Datagram ''c'' [0, 9], FromErr EOF] \<and>
    srv_Payload s' = Some [1, 2, 3] \<and> Retries s' \<noteq> 0 \<and> srv_Timeout s' \<noteq> 0"
  by (rule serve_starts_requests) (simp add: sample_server_def)

text \<open>
  The terminator of the mode is not required.  The loop parses its whole zeroed buffer, so a
  request that stops right after the mode, without the final zero byte that the documented
  packet structure demands, is accepted like a complete one.
\<close>

theorem unterminated_request_accepted:
  assumes "fn \<noteq> ''''" and "NUL \<notin> set fn" and "NUL \<notin> set md" and "to_lower md = ''octet''"
    and "length fn + length md + 4 \<le> DatagramSize"
  shows "request_of (Datagram addr (put_be16 OpRRQ @ to_bytes fn @ [0] @ to_bytes md)) =
    Some (addr, \<lparr>Filename = fn, Mode = md\<rparr>)"
proof -
  let ?p = "put_be16 OpRRQ @ to_bytes fn @ [0] @ to_bytes md"
  obtain k where k: "DatagramSize - length ?p = Suc k"
    using assms(5) by (cases "DatagramSize - length ?p") auto
  then have "overlay ?p (replicate DatagramSize 0) = rrq_bytes fn md @ replicate k 0"
    using assms(5) by (simp add: overlay_replicate rrq_bytes_def)
  with assms show ?thesis by (simp add: ReadReq_Unmarshal_bytes)
qed

theorem unterminated_request_accepted_witness:
  "request_of (Datagram ''client'' (put_be16 OpRRQ @ to_bytes ''f'' @ [0] @ to_bytes ''octet'')) =
    Some (''client'', \<lparr>Filename = ''f'', Mode = ''octet''\<rparr>)"
  by (rule unterminated_request_accepted)
    (simp_all add: NUL_def to_lower_def to_lower_char_def DatagramSize_def)

end
