(* ===== verification/Tlv.thy ===== *)
theory Tlv
  imports GoIO
begin

text \<open>
  The type-length-value messages of chapter4/tlv.go: the payload types \<open>Binary\<close> and \<open>String\<close> with
  their \<open>WriteTo\<close> and \<open>ReadFrom\<close> methods, and \<open>decode\<close>, which reads the type byte, puts it back in
  front of the stream with \<open>io.MultiReader\<close> and lets the payload read itself.

  \<open>ReadFrom\<close> takes the receiver and the reader and returns both, the count and the error.  The
  count is an \<open>int64\<close> in the code and stays below \<open>2^24\<close>, so it is a \<^typ>\<open>nat\<close> here.
\<close>

definition BinaryType :: u8 where "BinaryType = 1"

definition StringType :: u8 where "StringType = 2"

definition MaxPayloadSize :: u32 where
  "MaxPayloadSize = push_bit 20 10"

definition ErrMaxPayloadSize :: go_error where
  "ErrMaxPayloadSize = ErrText ''payload size exceeds the maximum allowed''"

datatype payload = Binary "byte list" | String string

text \<open>The methods \<open>Bytes\<close> and \<open>String\<close> of both payload types.\<close>

fun payload_Bytes :: "payload \<Rightarrow> byte list" where
  "payload_Bytes (Binary m) = m"
| "payload_Bytes (String m) = to_bytes m"

fun payload_String :: "payload \<Rightarrow> string" where
  "payload_String (Binary m) = of_bytes m"
| "payload_String (String m) = m"

subsection \<open>Writing\<close>

definition Binary_WriteTo :: "byte list \<Rightarrow> writer \<Rightarrow> writer \<times> nat \<times> go_error option" where
  "Binary_WriteTo m w =
     (case wr_write [BinaryType] w of
        (w, _, Some err) \<Rightarrow> (w, 0, Some err)
      | (w, _, None) \<Rightarrow>
          let n = 1 in
          (case wr_write (put_be32 (of_nat (length m))) w of
             (w, _, Some err) \<Rightarrow> (w, 0, Some err)
           | (w, _, None) \<Rightarrow>
               let n = n + 4 in
               (case wr_write m w of
                  (w, _, Some err) \<Rightarrow> (w, 0, Some err)
                | (w, k, None) \<Rightarrow> (w, n + k, None))))"

definition String_WriteTo :: "string \<Rightarrow> writer \<Rightarrow> writer \<times> nat \<times> go_error option" where
  "String_WriteTo m w =
     (case wr_write [StringType] w of
        (w, _, Some err) \<Rightarrow> (w, 0, Some err)
      | (w, _, None) \<Rightarrow>
          let n = 1 in
          (case wr_write (put_be32 (of_nat (length m))) w of
             (w, _, Some err) \<Rightarrow> (w, 0, Some err)
           | (w, _, None) \<Rightarrow>
               let n = n + 4 in
               (case wr_write (to_bytes m) w of
                  (w, _, Some err) \<Rightarrow> (w, 0, Some err)
                | (w, k, None) \<Rightarrow> (w, n + k, None))))"

subsection \<open>Reading\<close>

text \<open>\<open>binary.Read\<close> of a \<open>uint8\<close> and of a \<open>uint32\<close>.\<close>

definition read_u8 :: "reader \<Rightarrow> reader \<times> u8 result" where
  "read_u8 r = (case read_full 1 r of (r, Inl e) \<Rightarrow> (r, Inl e) | (r, Inr b) \<Rightarrow> (r, Inr (b ! 0)))"

definition read_u32 :: "reader \<Rightarrow> reader \<times> u32 result" where
  "read_u32 r =
     (case read_full 4 r of
        (r, Inl e) \<Rightarrow> (r, Inl e)
      | (r, Inr b) \<Rightarrow> (r, Inr (be32 (b ! 0) (b ! 1) (b ! 2) (b ! 3))))"

definition Binary_ReadFrom :: "byte list \<Rightarrow> reader \<Rightarrow> reader \<times> byte list \<times> nat \<times> go_error option" where
  "Binary_ReadFrom m r =
     (case read_u8 r of
        (r, Inl err) \<Rightarrow> (r, m, 0, Some err)
      | (r, Inr typ) \<Rightarrow>
          let n = 1 in
          if typ \<noteq> BinaryType then (r, m, 0, Some (ErrText ''invalid type''))
          else (case read_u32 r of
            (r, Inl err) \<Rightarrow> (r, m, 0, Some err)
          | (r, Inr sz) \<Rightarrow>
              let n = n + 4 in
              if sz > MaxPayloadSize then (r, m, 0, Some ErrMaxPayloadSize)
              else
                let m = replicate (unat sz) 0 in
                (case rd_read (unat sz) r of
                   (r, p, Some err) \<Rightarrow> (r, overlay p m, 0, Some err)
                 | (r, p, None) \<Rightarrow> (r, overlay p m, n + length p, None))))"

definition String_ReadFrom :: "string \<Rightarrow> reader \<Rightarrow> reader \<times> string \<times> nat \<times> go_error option" where
  "String_ReadFrom m r =
     (case read_u8 r of
        (r, Inl err) \<Rightarrow> (r, m, 0, Some err)
      | (r, Inr typ) \<Rightarrow>
          let n = 1 in
          if typ \<noteq> StringType then (r, m, 0, Some (ErrText ''invalid type''))
          else (case read_u32 r of
            (r, Inl err) \<Rightarrow> (r, m, 0, Some err)
          | (r, Inr sz) \<Rightarrow>
              let n = n + 4 in
              if sz > MaxPayloadSize then (r, m, 0, Some ErrMaxPayloadSize)
              else
                let buf = replicate (unat sz) 0 in
                (case rd_read (unat sz) r of
                   (r, p, Some err) \<Rightarrow> (r, m, 0, Some err)
                 | (r, p, None) \<Rightarrow> (r, of_bytes (overlay p buf), n + length p, None))))"

definition decode :: "reader \<Rightarrow> reader \<times> payload result" where
  "decode r =
     (case read_u8 r of
        (r, Inl err) \<Rightarrow> (r, Inl err)
      | (r, Inr typ) \<Rightarrow>
          if typ = BinaryType then
            (case Binary_ReadFrom [] (multi_reader [typ] r) of
               (r, m, _, Some err) \<Rightarrow> (r, Inl err)
             | (r, m, _, None) \<Rightarrow> (r, Inr (Binary m)))
          else if typ = StringType then
            (case String_ReadFrom [] (multi_reader [typ] r) of
               (r, m, _, Some err) \<Rightarrow> (r, Inl err)
             | (r, m, _, None) \<Rightarrow> (r, Inr (String m)))
          else (r, Inl (ErrText ''invalid type'')))"

subsection \<open>Frames\<close>

text \<open>What a message looks like on the wire: type, length, value.\<close>

definition frame :: "u8 \<Rightarrow> byte list \<Rightarrow> byte list" where
  "frame typ b = typ # put_be32 (of_nat (length b)) @ b"

definition small :: "byte list \<Rightarrow> bool" where
  "small b \<longleftrightarrow> length b \<le> unat MaxPayloadSize"

lemma unat_MaxPayloadSize [simp]: "unat MaxPayloadSize = 10485760"
  by (simp add: MaxPayloadSize_def push_bit_eq_mult)

lemma small_length: "small b \<Longrightarrow> unat (of_nat (length b) :: u32) = length b"
  by (simp add: small_def unat_of_nat)

lemma small_not_over: "small b \<Longrightarrow> \<not> of_nat (length b) > MaxPayloadSize"
  using small_length [of b] by (simp add: small_def word_less_nat_alt)

lemma type_consts [simp]: "BinaryType \<noteq> StringType" "StringType \<noteq> BinaryType"
  by (simp_all add: BinaryType_def StringType_def)

lemma read_u8_front: "chunks r = (x # b) # cs \<Longrightarrow>
  read_u8 r = (r\<lparr>chunks := (if b = [] then cs else b # cs)\<rparr>, Inr x)"
  by (cases b) (auto simp: read_u8_def read_full_def numeral_nat)

lemma take_chunks_split:
  "length p = n \<Longrightarrow> 0 < n \<Longrightarrow> take_chunks n ((p @ b) # cs) = (p, if b = [] then cs else b # cs)"
  by (cases n; cases b) auto

lemma read_u32_front: "chunks r = (put_be32 v @ b) # cs \<Longrightarrow>
  read_u32 r = (r\<lparr>chunks := (if b = [] then cs else b # cs)\<rparr>, Inr v)"
  by (simp add: read_u32_def read_full_def take_chunks_split)
    (simp add: put_be32_def be32_put)

lemma read_u8_multi:
  "read_u8 (multi_reader [x] r) = (r, Inr x)"
  by (simp add: read_u8_def read_full_def multi_reader_def bytes_reader_def numeral_nat)

text \<open>
  The interface \<open>io.WriterTo\<close> and \<open>io.ReaderFrom\<close> of a payload type, with its type byte and its
  bytes: what \<open>WriteTo\<close> appends is one frame, and \<open>ReadFrom\<close> takes one frame off a stream whose
  front piece holds it whole.  A reader that reports its end eagerly cannot deliver an empty
  value as the very last thing, hence the last premise.
\<close>

locale tlv_payload =
  fixes tag :: u8
    and body :: "'p \<Rightarrow> byte list"
    and write_to :: "'p \<Rightarrow> writer \<Rightarrow> writer \<times> nat \<times> go_error option"
    and read_from :: "'p \<Rightarrow> reader \<Rightarrow> reader \<times> 'p \<times> nat \<times> go_error option"
  assumes write_frame: "script w = [] \<Longrightarrow>
      write_to p w = (w\<lparr>accepted := accepted w @ frame tag (body p)\<rparr>, 5 + length (body p), None)"
    and read_frame: "small (body p) \<Longrightarrow> chunks r = (frame tag (body p) @ rest) # cs \<Longrightarrow>
      body p \<noteq> [] \<or> rest \<noteq> [] \<or> cs = [] \<and> \<not> end_first r \<Longrightarrow>
      read_from q r = (r\<lparr>chunks := (if rest = [] then cs else rest # cs)\<rparr>, p, 5 + length (body p), None)"
begin

lemma write_then_read:
  assumes "small (body p)" and "write_to p new_writer = (w, n, None)"
    and "chunks r = [accepted w @ rest]" and "body p \<noteq> [] \<or> rest \<noteq> [] \<or> \<not> end_first r"
  shows "read_from q r = (r\<lparr>chunks := (if rest = [] then [] else [rest])\<rparr>, p, n, None)"
  using assms write_frame [of new_writer p] read_frame [of p r rest "[]" q]
  by (auto simp: new_writer_def)

end

lemma Binary_write_frame:
  "script w = [] \<Longrightarrow> Binary_WriteTo m w = (w\<lparr>accepted := accepted w @ frame BinaryType m\<rparr>, 5 + length m, None)"
  by (simp add: Binary_WriteTo_def frame_def Let_def)

lemma String_write_frame:
  "script w = [] \<Longrightarrow>
    String_WriteTo m w = (w\<lparr>accepted := accepted w @ frame StringType (to_bytes m)\<rparr>, 5 + length m, None)"
  by (simp add: String_WriteTo_def frame_def Let_def)

lemma rd_read_front:
  "chunks r = (if b @ rest = [] then cs else (b @ rest) # cs) \<Longrightarrow>
    b \<noteq> [] \<or> rest \<noteq> [] \<or> cs = [] \<and> \<not> end_first r \<Longrightarrow>
    rd_read (length b) r = (r\<lparr>chunks := (if rest = [] then cs else rest # cs)\<rparr>, b, None)"
  by (cases b; cases rest) (auto simp: rd_read_def)

lemma Binary_read_frame:
  assumes "small m" "chunks r = (frame BinaryType m @ rest) # cs"
    "m \<noteq> [] \<or> rest \<noteq> [] \<or> cs = [] \<and> \<not> end_first r"
  shows "Binary_ReadFrom q r = (r\<lparr>chunks := (if rest = [] then cs else rest # cs)\<rparr>, m, 5 + length m, None)"
proof -
  let ?r1 = "r\<lparr>chunks := (put_be32 (of_nat (length m)) @ m @ rest) # cs\<rparr>"
  let ?r2 = "r\<lparr>chunks := (if m @ rest = [] then cs else (m @ rest) # cs)\<rparr>"
  have 1: "read_u8 r = (?r1, Inr BinaryType)"
    using read_u8_front [of r BinaryType "put_be32 (of_nat (length m)) @ m @ rest" cs] assms(2)
    by (simp add: frame_def put_be32_def)
  have 2: "read_u32 ?r1 = (?r2, Inr (of_nat (length m)))"
    using read_u32_front [of ?r1 "of_nat (length m)" "m @ rest" cs] by simp
  have 3: "rd_read (length m) ?r2 = (?r2\<lparr>chunks := (if rest = [] then cs else rest # cs)\<rparr>, m, None)"
    by (rule rd_read_front) (use assms(3) in auto)
  show ?thesis
    using small_length [OF assms(1)] small_not_over [OF assms(1)]
    by (simp add: Binary_ReadFrom_def 1 2 3 Let_def overlay_def del: append_is_Nil_conv)
qed

lemma String_read_frame:
  assumes "small (to_bytes m)" "chunks r = (frame StringType (to_bytes m) @ rest) # cs"
    "m \<noteq> [] \<or> rest \<noteq> [] \<or> cs = [] \<and> \<not> end_first r"
  shows "String_ReadFrom q r = (r\<lparr>chunks := (if rest = [] then cs else rest # cs)\<rparr>, m, 5 + length m, None)"
proof -
  let ?m = "to_bytes m"
  let ?r1 = "r\<lparr>chunks := (put_be32 (of_nat (length ?m)) @ ?m @ rest) # cs\<rparr>"
  let ?r2 = "r\<lparr>chunks := (if ?m @ rest = [] then cs else (?m @ rest) # cs)\<rparr>"
  have 1: "read_u8 r = (?r1, Inr StringType)"
    using read_u8_front [of r StringType "put_be32 (of_nat (length ?m)) @ ?m @ rest" cs] assms(2)
    by (simp add: frame_def put_be32_def)
  have 2: "read_u32 ?r1 = (?r2, Inr (of_nat (length ?m)))"
    using read_u32_front [of ?r1 "of_nat (length ?m)" "?m @ rest" cs] by simp
  have 3: "rd_read (length ?m) ?r2 = (?r2\<lparr>chunks := (if rest = [] then cs else rest # cs)\<rparr>, ?m, None)"
    by (rule rd_read_front) (use assms(3) in auto)
  show ?thesis
    using small_length [OF assms(1)] small_not_over [OF assms(1)] 1 2 3
    by (simp add: String_ReadFrom_def Let_def overlay_def del: append_is_Nil_conv)
qed

interpretation bin: tlv_payload BinaryType "\<lambda>m. m" Binary_WriteTo Binary_ReadFrom
  by unfold_locales (simp_all add: Binary_write_frame Binary_read_frame)

interpretation str: tlv_payload StringType to_bytes String_WriteTo String_ReadFrom
  by unfold_locales (simp_all add: String_write_frame String_read_frame)

subsection \<open>Sequences of messages\<close>

text \<open>\<open>WriteTo\<close> through the interface \<open>Payload\<close>, and what a peer does with several messages.\<close>

fun payload_WriteTo :: "payload \<Rightarrow> writer \<Rightarrow> writer \<times> nat \<times> go_error option" where
  "payload_WriteTo (Binary m) w = Binary_WriteTo m w"
| "payload_WriteTo (String m) w = String_WriteTo m w"

fun payload_tag :: "payload \<Rightarrow> u8" where
  "payload_tag (Binary m) = BinaryType"
| "payload_tag (String m) = StringType"

definition payload_frame :: "payload \<Rightarrow> byte list" where
  "payload_frame p = frame (payload_tag p) (payload_Bytes p)"

fun write_messages :: "payload list \<Rightarrow> writer \<Rightarrow> writer \<times> nat \<times> go_error option" where
  "write_messages [] w = (w, 0, None)"
| "write_messages (p # ps) w =
     (case payload_WriteTo p w of
        (w, n, Some e) \<Rightarrow> (w, n, Some e)
      | (w, n, None) \<Rightarrow> (case write_messages ps w of (w, k, e) \<Rightarrow> (w, n + k, e)))"

fun decode_messages :: "nat \<Rightarrow> reader \<Rightarrow> reader \<times> payload list result" where
  "decode_messages 0 r = (r, Inr [])"
| "decode_messages (Suc n) r =
     (case decode r of
        (r, Inl e) \<Rightarrow> (r, Inl e)
      | (r, Inr p) \<Rightarrow>
          (case decode_messages n r of
             (r, Inl e) \<Rightarrow> (r, Inl e)
           | (r, Inr ps) \<Rightarrow> (r, Inr (p # ps))))"

lemma frame_not_Nil [simp]: "frame t b \<noteq> []" "payload_frame p \<noteq> []"
  by (simp_all add: frame_def payload_frame_def)

lemma length_frame [simp]: "length (frame t b) = 5 + length b"
  by (simp add: frame_def put_be32_def)

lemma payload_write_frame:
  "script w = [] \<Longrightarrow> payload_WriteTo p w =
    (w\<lparr>accepted := accepted w @ payload_frame p\<rparr>, length (payload_frame p), None)"
  by (cases p) (simp_all add: payload_frame_def bin.write_frame str.write_frame)

lemma write_messages_frames:
  "script w = [] \<Longrightarrow> write_messages ps w =
    (w\<lparr>accepted := accepted w @ concat (map payload_frame ps)\<rparr>,
     length (concat (map payload_frame ps)), None)"
  by (induction ps arbitrary: w) (simp_all add: payload_write_frame)

subsection \<open>Where the header ends\<close>

text \<open>\<open>after n r\<close> is \<open>r\<close> once \<open>n\<close> bytes have been read off it, in as many pieces as it takes.\<close>

definition after :: "nat \<Rightarrow> reader \<Rightarrow> reader" where
  "after n r = r\<lparr>chunks := snd (take_chunks n (chunks r))\<rparr>"

lemma take_chunks_add:
  "take_chunks (m + n) cs =
    (let (a, cs1) = take_chunks m cs; (b, cs2) = take_chunks n cs1 in (a @ b, cs2))"
proof (induction m cs arbitrary: n rule: take_chunks.induct)
  case (1 cs)
  then show ?case by simp
next
  case (2 v)
  then show ?case by (cases n) auto
next
  case (3 v c cs)
  show ?case
  proof (cases "length c \<le> Suc v")
    case True
    then have "Suc v + n - length c = (Suc v - length c) + n" by simp
    with True 3 show ?thesis by (auto split: prod.splits)
  next
    case False
    show ?thesis
    proof (cases n)
      case (Suc k)
      have "Suc k - (length c - Suc v) = Suc (Suc (v + k)) - length c" using False by simp
      then show ?thesis
        using False Suc take_add [of "Suc v" "Suc k" c]
        by (auto simp: add.commute split: prod.splits)
    qed (use False in simp)
  qed
qed

lemma after_after: "after n (after m r) = after (m + n) r"
  by (simp add: after_def take_chunks_add split: prod.splits)

lemma stream_after [simp]: "stream (after n r) = drop n (stream r)"
  by (simp add: after_def stream_def take_chunks_stream)

lemma after_fields [simp]: "fin (after n r) = fin r" "end_first (after n r) = end_first r"
  by (simp_all add: after_def)

lemma read_full_after:
  "read_full n r = (after n r,
     if n \<le> length (stream r) then Inr (take n (stream r))
     else Inl (if stream r \<noteq> [] \<and> fin r = EOF then UnexpectedEOF else fin r))"
  using take_chunks_stream(1) [of n "chunks r"]
  by (cases "take_chunks n (chunks r)") (auto simp: read_full_def after_def stream_def)

lemma read_u8_after:
  "read_u8 r = (after 1 r, case stream r of [] \<Rightarrow> Inl (fin r) | x # _ \<Rightarrow> Inr x)"
  by (cases "stream r") (auto simp: read_u8_def read_full_after)

lemma read_u32_after:
  "length s \<ge> 4 \<Longrightarrow> stream r = s \<Longrightarrow>
    read_u32 r = (after 4 r, Inr (be32 (s ! 0) (s ! 1) (s ! 2) (s ! 3)))"
  by (simp add: read_u32_def read_full_after)

lemma read_u32_short:
  "length (stream r) < 4 \<Longrightarrow>
    read_u32 r = (after 4 r, Inl (if stream r \<noteq> [] \<and> fin r = EOF then UnexpectedEOF else fin r))"
  by (simp add: read_u32_def read_full_after)

subsection \<open>Decoding any stream\<close>

definition payload_of :: "u8 \<Rightarrow> byte list \<Rightarrow> payload" where
  "payload_of typ b = (if typ = BinaryType then Binary b else String (of_bytes b))"

lemma payload_of_tag [simp]: "payload_of (payload_tag p) (payload_Bytes p) = p"
  by (cases p) (simp_all add: payload_of_def)

text \<open>The part of \<open>ReadFrom\<close> behind the type byte, the same for both payload types.\<close>

definition read_value :: "u8 \<Rightarrow> reader \<Rightarrow> reader \<times> payload result" where
  "read_value typ r =
     (case read_u32 r of
        (r, Inl err) \<Rightarrow> (r, Inl err)
      | (r, Inr sz) \<Rightarrow>
          if sz > MaxPayloadSize then (r, Inl ErrMaxPayloadSize)
          else (case rd_read (unat sz) r of
            (r, p, Some err) \<Rightarrow> (r, Inl err)
          | (r, p, None) \<Rightarrow> (r, Inr (payload_of typ (p @ replicate (unat sz - length p) 0)))))"

lemma rd_read_overlay:
  "rd_read n r = (r', p, e) \<Longrightarrow> overlay p (replicate n 0) = p @ replicate (n - length p) 0"
  using length_rd_read [of n r] by (simp add: overlay_replicate)

lemma decode_read_value:
  "decode r =
     (case stream r of
        [] \<Rightarrow> (after 1 r, Inl (fin r))
      | typ # _ \<Rightarrow>
          if typ = BinaryType \<or> typ = StringType then read_value typ (after 1 r)
          else (after 1 r, Inl (ErrText ''invalid type'')))"
  by (auto simp: decode_def read_u8_after [of r] read_u8_multi Binary_ReadFrom_def String_ReadFrom_def
      read_value_def payload_of_def Let_def rd_read_overlay
      split: list.splits prod.splits sum.splits option.splits)

text \<open>
  C4: Decoding, in full, for any reader: the error of every way a message can be malformed
  (nothing there, unknown type, header cut short, length over 10 MB), and otherwise a payload of
  the announced length that consists of what ONE call of the reader's \<open>Read\<close> delivers after the
  header, filled up with zeros.
\<close>

theorem decode_outcomes:
  "snd (decode r) =
     (let s = stream r; sz = be32 (s ! 1) (s ! 2) (s ! 3) (s ! 4) in
      if s = [] then Inl (fin r)
      else if hd s \<noteq> BinaryType \<and> hd s \<noteq> StringType then Inl (ErrText ''invalid type'')
      else if length s < 5 then Inl (if 1 < length s \<and> fin r = EOF then UnexpectedEOF else fin r)
      else if sz > MaxPayloadSize then Inl ErrMaxPayloadSize
      else (case rd_read (unat sz) (after 5 r) of
              (_, _, Some e) \<Rightarrow> Inl e
            | (_, p, None) \<Rightarrow> Inr (payload_of (hd s) (p @ replicate (unat sz - length p) 0))))"
proof (cases "stream r")
  case Nil
  then show ?thesis by (simp add: decode_read_value)
next
  case (Cons t s)
  have s: "stream (after 1 r) = s" using Cons by simp
  show ?thesis
  proof (cases "length s < 4")
    case True
    then show ?thesis
      using read_u32_short [of "after 1 r"] Cons s
      by (auto simp: decode_read_value read_value_def)
  next
    case False
    then have "read_u32 (after 1 r) = (after 5 r, Inr (be32 (s ! 0) (s ! 1) (s ! 2) (s ! 3)))"
      using read_u32_after [OF _ s] by (simp add: after_after)
    then show ?thesis
      using Cons False
      by (auto simp: decode_read_value read_value_def Let_def numeral_nat split: prod.splits option.splits)
  qed
qed

text \<open>
  Putting the type byte back with \<open>io.MultiReader\<close> is transparent: \<open>decode\<close> does exactly what
  calling \<open>ReadFrom\<close> of the type that the first byte names does on the reader itself, however the
  bytes arrive in pieces; it fails the way reading the first byte fails, and an unknown type costs
  one byte of the stream.
\<close>

theorem decode_is_read_from:
  "decode r =
     (case stream r of
        [] \<Rightarrow> (after 1 r, Inl (fin r))
      | t # _ \<Rightarrow>
          if t = BinaryType then
            (case Binary_ReadFrom [] r of
               (r', _, _, Some e) \<Rightarrow> (r', Inl e) | (r', m, _, None) \<Rightarrow> (r', Inr (Binary m)))
          else if t = StringType then
            (case String_ReadFrom [] r of
               (r', _, _, Some e) \<Rightarrow> (r', Inl e) | (r', m, _, None) \<Rightarrow> (r', Inr (String m)))
          else (after 1 r, Inl (ErrText ''invalid type'')))"
  by (auto simp: decode_def read_u8_after [of r] read_u8_multi Binary_ReadFrom_def String_ReadFrom_def
      Let_def split: list.splits prod.splits sum.splits option.splits)

lemma stream_frame_parts:
  assumes "stream r = frame t b @ rest"
  shows "stream (after 1 r) = put_be32 (of_nat (length b)) @ b @ rest"
    "read_u32 (after 1 r) = (after 5 r, Inr (of_nat (length b)))"
    "stream (after 5 r) = b @ rest"
proof -
  show 1: "stream (after 1 r) = put_be32 (of_nat (length b)) @ b @ rest"
    using assms by (simp add: frame_def)
  show "read_u32 (after 1 r) = (after 5 r, Inr (of_nat (length b)))"
    using read_u32_after [OF _ 1] by (simp add: after_after) (simp add: put_be32_def be32_put)
  show "stream (after 5 r) = b @ rest" using assms by (simp add: frame_def put_be32_def)
qed

text \<open>
  C19: When the stream starts with a well-formed message and the piece that follows its header is
  \<open>c\<close>, \<open>decode\<close> reports no error and takes exactly the part of the value that lies in \<open>c\<close>: the whole
  value if \<open>c\<close> holds it, and otherwise a value of the right length whose tail is zeros, while the
  real tail stays in the stream to be taken for the next message.
\<close>

theorem decode_takes_one_piece:
  assumes "stream r = frame t b @ rest" and "t = BinaryType \<or> t = StringType" and "small b"
    and "chunks (after 5 r) = c # cs"
  shows "\<exists>r'. decode r = (r', Inr (payload_of t
                (take (length c) b @ replicate (length b - length c) 0))) \<and>
              stream r' = drop (length c) b @ rest"
proof -
  note parts = stream_frame_parts [OF assms(1)]
  have c: "c @ concat cs = b @ rest" using parts(3) assms(4) by (simp add: stream_def)
  then have take: "take (length b) c = take (length c) b"
    by (metis append_eq_conv_conj take_all_iff le_cases take_append take_take min.commute)
  obtain r' where r': "rd_read (length b) (after 5 r) = (r', take (length c) b, None)"
    using assms(4) take by (auto simp: rd_read_def)
  have "stream (after 5 r) = take (length c) b @ stream r'"
    using stream_rd_read [of "after 5 r" "length b"] r' by simp
  then have "stream r' = drop (length c) b @ rest"
    using parts(3) by (metis append_assoc append_take_drop_id same_append_eq)
  moreover have "length b - min (length b) (length c) = length b - length c" by simp
  ultimately show ?thesis
    using assms(2) small_length [OF assms(3)] small_not_over [OF assms(3)] parts(2) r' assms(1)
    by (auto simp: decode_read_value read_value_def frame_def)
qed

text \<open>A message of five bytes that arrives in two pieces, followed by another message.\<close>

definition split_delivery :: reader where
  "split_delivery = \<lparr>chunks =
     [[1, 0, 0, 0, 5, 104, 101, 108], [108, 111, 2, 0, 0, 0, 1, 33]], fin = EOF, end_first = False\<rparr>"

theorem decode_takes_one_piece_witness:
  "decode split_delivery =
     (\<lparr>chunks = [[108, 111, 2, 0, 0, 0, 1, 33]], fin = EOF, end_first = False\<rparr>,
      Inr (Binary [104, 101, 108, 0, 0]))
   \<and> snd (decode_messages 2 split_delivery) = Inl (ErrText ''invalid type'')"
proof -
  have "\<exists>r'. decode split_delivery = (r', Inr (payload_of 1
            (take (length [104, 101, 108 :: byte]) [104, 101, 108, 108, 111]
              @ replicate (length [104, 101, 108, 108, 111 :: byte] - length [104, 101, 108 :: byte]) 0))) \<and>
          stream r' = drop (length [104, 101, 108 :: byte]) [104, 101, 108, 108, 111] @ [2, 0, 0, 0, 1, 33]"
    by (rule decode_takes_one_piece [where cs = "[[108, 111, 2, 0, 0, 0, 1, 33]]"])
      (code_simp, code_simp, simp add: small_def, code_simp)
  then have "snd (decode split_delivery) = Inr (Binary [104, 101, 108, 0, 0])"
    by (auto simp: payload_of_def BinaryType_def numeral_nat)
  moreover have "fst (decode split_delivery) =
      \<lparr>chunks = [[108, 111, 2, 0, 0, 0, 1, 33]], fin = EOF, end_first = False\<rparr>" by code_simp
  moreover have "snd (decode_messages 2 split_delivery) = Inl (ErrText ''invalid type'')" by code_simp
  ultimately show ?thesis by (cases "decode split_delivery") auto
qed

subsection \<open>Round trip and writing\<close>

lemma decode_frame:
  assumes "small (payload_Bytes p)" "chunks r = (payload_frame p @ rest) # cs"
    "payload_Bytes p \<noteq> [] \<or> rest \<noteq> [] \<or> cs = [] \<and> \<not> end_first r"
  shows "decode r = (r\<lparr>chunks := (if rest = [] then cs else rest # cs)\<rparr>, Inr p)"
proof -
  have "stream r = payload_tag p # put_be32 (of_nat (length (payload_Bytes p))) @ payload_Bytes p @ rest @ concat cs"
    using assms(2) by (simp add: stream_def payload_frame_def frame_def)
  then show ?thesis
    using assms bin.read_frame [of _ r rest cs "[]"] str.read_frame [of _ r rest cs "[]"]
    by (cases p) (simp_all add: decode_is_read_from payload_frame_def)
qed

lemma decode_frame_end:
  assumes "payload_Bytes p = []" "chunks r = [payload_frame p]" "end_first r"
  shows "decode r = (r\<lparr>chunks := []\<rparr>, Inl (fin r))"
proof -
  have s: "stream r = frame (payload_tag p) [] @ []" using assms by (simp add: stream_def payload_frame_def)
  have a5: "after 5 r = r\<lparr>chunks := []\<rparr>"
    using assms by (simp add: after_def payload_frame_def frame_def put_be32_def numeral_nat)
  have "rd_read 0 (after 5 r) = (after 5 r, [], Some (fin r))"
    using assms(3) by (simp add: rd_read_def a5)
  then show ?thesis
    using s stream_frame_parts(2) [OF s] a5
    by (cases p) (simp_all add: decode_read_value read_value_def frame_def)
qed

lemma decode_frame_big:
  assumes "\<not> small (payload_Bytes p)" "length (payload_Bytes p) < 2 ^ 32" "stream r = payload_frame p @ rest"
  shows "snd (decode r) = Inl ErrMaxPayloadSize"
proof -
  have s: "stream r = frame (payload_tag p) (payload_Bytes p) @ rest"
    using assms(3) by (simp add: payload_frame_def)
  have "unat (of_nat (length (payload_Bytes p)) :: u32) = length (payload_Bytes p)"
    using assms(2) by (simp add: unat_of_nat)
  then have "MaxPayloadSize < of_nat (length (payload_Bytes p))"
    using assms(1) by (simp add: small_def word_less_nat_alt)
  then show ?thesis
    using s stream_frame_parts(2) [OF s]
    by (cases p) (simp_all add: decode_read_value read_value_def frame_def)
qed

text \<open>How reading back ends: at a message that is too long, or at an empty last one.\<close>

definition reads_back :: "payload list \<Rightarrow> reader \<Rightarrow> payload list result" where
  "reads_back ps r =
     (if \<exists>p\<in>set ps. \<not> small (payload_Bytes p) then Inl ErrMaxPayloadSize
      else if payload_Bytes (last ps) = [] \<and> end_first r then Inl (fin r)
      else Inr ps)"

lemma decode_frames:
  assumes "\<forall>p\<in>set ps. length (payload_Bytes p) < 2 ^ 32" "ps \<noteq> []"
    and "chunks r = [concat (map payload_frame ps)]"
  shows "snd (decode_messages (length ps) r) = reads_back ps r \<and>
    ((\<forall>p\<in>set ps. small (payload_Bytes p)) \<longrightarrow> fst (decode_messages (length ps) r) = r\<lparr>chunks := []\<rparr>)"
  using assms
proof (induction ps arbitrary: r)
  case Nil
  then show ?case by simp
next
  case (Cons p ps)
  let ?r = "r\<lparr>chunks := (if ps = [] then [] else [concat (map payload_frame ps)])\<rparr>"
  have str: "stream r = payload_frame p @ concat (map payload_frame ps)"
    using Cons.prems(3) by (simp add: stream_def)
  show ?case
  proof (cases "small (payload_Bytes p)")
    case False
    then show ?thesis using decode_frame_big [OF False _ str] Cons.prems(1)
      by (cases "decode r") (auto simp: reads_back_def)
  next
    case small: True
    show ?thesis
    proof (cases "payload_Bytes p = [] \<and> ps = [] \<and> end_first r")
      case True
      then show ?thesis using decode_frame_end [of p r] Cons.prems(3) small by (simp add: reads_back_def)
    next
      case False
      then have d: "decode r = (?r, Inr p)"
        using decode_frame [of p r "concat (map payload_frame ps)" "[]"] Cons.prems(3) small
        by (cases ps) auto
      show ?thesis
      proof (cases "ps = []")
        case True
        then show ?thesis using d False small by (auto simp: reads_back_def)
      next
        case ps: False
        then have "snd (decode_messages (length ps) ?r) = reads_back ps ?r \<and>
          ((\<forall>p\<in>set ps. small (payload_Bytes p)) \<longrightarrow> fst (decode_messages (length ps) ?r) = ?r\<lparr>chunks := []\<rparr>)"
          using Cons.IH [of ?r] Cons.prems(1) by simp
        then show ?thesis
          using d small ps by (cases "decode_messages (length ps) ?r") (auto simp: reads_back_def)
      qed
    qed
  qed
qed

text \<open>
  C18: A non-empty list of messages of both kinds, each of fewer than \<open>2^32\<close> bytes, is written one
  after the other to a writer that does not fail, and delivered in one piece.  Nothing goes wrong
  writing, and the counts that \<open>WriteTo\<close> returns add up to the bytes written.  If no message exceeds
  \<open>MaxPayloadSize\<close> bytes, decoding them one by one returns the same messages in order and leaves
  nothing over, with one exception: from a reader that reports its end even to an empty buffer (a
  \<open>bytes.Reader\<close>) an empty last message is not decoded, the result is the reader's end.  If some
  message is longer, although writing it succeeded, decoding ends with \<open>ErrMaxPayloadSize\<close>.
\<close>

theorem messages_roundtrip:
  assumes "\<forall>p\<in>set ps. length (payload_Bytes p) < 2 ^ 32" and "ps \<noteq> []"
    and "write_messages ps new_writer = (w, n, e)" and "chunks r = [accepted w]"
  shows "e = None \<and> n = length (accepted w) \<and>
    (if \<forall>p\<in>set ps. length (payload_Bytes p) \<le> unat MaxPayloadSize then
       decode_messages (length ps) r =
         (r\<lparr>chunks := []\<rparr>, if payload_Bytes (last ps) = [] \<and> end_first r then Inl (fin r) else Inr ps)
     else snd (decode_messages (length ps) r) = Inl ErrMaxPayloadSize)"
  using assms write_messages_frames [of new_writer ps] decode_frames [of ps r]
  by (cases "decode_messages (length ps) r") (auto simp: new_writer_def reads_back_def small_def not_le)

theorem messages_roundtrip_witness:
  "decode_messages 3 (bytes_reader [1, 0, 0, 0, 2, 7, 8, 2, 0, 0, 0, 0, 2, 0, 0, 0, 2, 104, 105]) =
     (bytes_reader [], Inr [Binary [7, 8], String [], String ''hi'']) \<and>
   decode_messages 1 (bytes_reader [2, 0, 0, 0, 0]) = (bytes_reader [], Inl EOF)"
proof (rule conjI)
  let ?ps = "[Binary [7, 8], String [], String ''hi'']"
  let ?b = "[1, 0, 0, 0, 2, 7, 8, 2, 0, 0, 0, 0, 2, 0, 0, 0, 2, 104, 105] :: byte list"
  let ?w = "\<lparr>accepted = ?b, script = []\<rparr>"
  have wr: "write_messages ?ps new_writer = (?w, 19, None)" by code_simp
  have "decode_messages (length ?ps) (bytes_reader ?b) = ((bytes_reader ?b)\<lparr>chunks := []\<rparr>, Inr ?ps)"
    using messages_roundtrip [OF _ _ wr, of "bytes_reader ?b"] by (simp add: bytes_reader_def)
  then show "decode_messages 3 (bytes_reader ?b) = (bytes_reader [], Inr ?ps)"
    by (simp add: bytes_reader_def numeral_nat)
  let ?c = "[2, 0, 0, 0, 0] :: byte list"
  have wr: "write_messages [String []] new_writer = (\<lparr>accepted = ?c, script = []\<rparr>, 5, None)" by code_simp
  have "decode_messages (length [String []]) (bytes_reader ?c) = ((bytes_reader ?c)\<lparr>chunks := []\<rparr>, Inl EOF)"
    using messages_roundtrip [OF _ _ wr, of "bytes_reader ?c"] by (simp add: bytes_reader_def)
  then show "decode_messages 1 (bytes_reader ?c) = (bytes_reader [], Inl EOF)"
    by (simp add: bytes_reader_def)
qed

lemma wr_write_part:
  "wr_write b w = (w', n, e) \<Longrightarrow>
    \<exists>k \<le> length b. accepted w' = accepted w @ take k b \<and> (e = None \<longrightarrow> k = length b \<and> n = k)"
  using wr_write_accepted [of b w] wr_write_ok [of b w w' n] by (cases e) auto

definition WriteTo3 :: "byte list \<Rightarrow> byte list \<Rightarrow> byte list \<Rightarrow> writer \<Rightarrow> writer \<times> nat \<times> go_error option" where
  "WriteTo3 a b c w =
     (case wr_write a w of
        (w, _, Some e) \<Rightarrow> (w, 0, Some e)
      | (w, _, None) \<Rightarrow>
          (case wr_write b w of
             (w, _, Some e) \<Rightarrow> (w, 0, Some e)
           | (w, _, None) \<Rightarrow>
               (case wr_write c w of
                  (w, _, Some e) \<Rightarrow> (w, 0, Some e)
                | (w, k, None) \<Rightarrow> (w, 5 + k, None))))"

lemma payload_WriteTo3:
  "payload_WriteTo p = WriteTo3 [payload_tag p] (put_be32 (of_nat (length (payload_Bytes p)))) (payload_Bytes p)"
  by (cases p) (auto simp: fun_eq_iff WriteTo3_def Binary_WriteTo_def String_WriteTo_def Let_def
      split: prod.splits option.splits)

lemma WriteTo3_prefix:
  assumes "WriteTo3 a b c w = (w', n, e)"
  shows "\<exists>k \<le> length (a @ b @ c). accepted w' = accepted w @ take k (a @ b @ c) \<and>
    (case e of None \<Rightarrow> k = length (a @ b @ c) \<and> n = 5 + length c | Some _ \<Rightarrow> n = 0)"
proof -
  obtain w1 n1 e1 where 1: "wr_write a w = (w1, n1, e1)" by (metis prod_cases3)
  obtain w2 n2 e2 where 2: "wr_write b w1 = (w2, n2, e2)" by (metis prod_cases3)
  obtain w3 n3 e3 where 3: "wr_write c w2 = (w3, n3, e3)" by (metis prod_cases3)
  obtain k1 where k1: "k1 \<le> length a" "accepted w1 = accepted w @ take k1 a" "e1 = None \<longrightarrow> k1 = length a"
    using wr_write_part [OF 1] by auto
  obtain k2 where k2: "k2 \<le> length b" "accepted w2 = accepted w1 @ take k2 b" "e2 = None \<longrightarrow> k2 = length b"
    using wr_write_part [OF 2] by auto
  obtain k3 where k3: "k3 \<le> length c" "accepted w3 = accepted w2 @ take k3 c"
    "e3 = None \<longrightarrow> k3 = length c \<and> n3 = k3"
    using wr_write_part [OF 3] by auto
  show ?thesis
  proof (cases e1)
    case (Some x)
    then show ?thesis using assms 1 k1 by (intro exI [of _ k1]) (auto simp: WriteTo3_def)
  next
    case e1: None
    show ?thesis
    proof (cases e2)
      case (Some x)
      then show ?thesis using assms 1 2 e1 k1 k2
        by (intro exI [of _ "length a + k2"]) (auto simp: WriteTo3_def)
    next
      case e2: None
      show ?thesis using assms 1 2 3 e1 e2 k1 k2 k3
        by (intro exI [of _ "length a + length b + k3"])
          (auto simp: WriteTo3_def split: option.splits)
    qed
  qed
qed

text \<open>
  What \<open>WriteTo\<close> puts on the wire for a payload of either kind is always a prefix of the
  type, length, value frame, and the whole frame when no error is reported; the count it returns is
  the frame's length then, and zero whenever there is an error, even after bytes were written.
\<close>

theorem write_reports:
  assumes "payload_WriteTo p w = (w', n, e)"
  shows "\<exists>k \<le> length (payload_frame p). accepted w' = accepted w @ take k (payload_frame p) \<and>
    (case e of None \<Rightarrow> k = length (payload_frame p) \<and> n = k | Some _ \<Rightarrow> n = 0)"
proof -
  have "[payload_tag p] @ put_be32 (of_nat (length (payload_Bytes p))) @ payload_Bytes p = payload_frame p"
    by (simp add: payload_frame_def frame_def)
  moreover have "length (payload_frame p) = 5 + length (payload_Bytes p)"
    by (simp add: payload_frame_def)
  ultimately show ?thesis
    using WriteTo3_prefix [OF assms [unfolded payload_WriteTo3]] by (auto split: option.splits)
qed

theorem write_reports_witness:
  "payload_WriteTo (String ''abc'') \<lparr>accepted = [], script = [None, Some (2, Timeout)]\<rparr> =
     (\<lparr>accepted = [2, 0, 0], script = []\<rparr>, 0, Some Timeout) \<and>
   (\<exists>k \<le> 8. [2, 0, 0 :: byte] = take k (payload_frame (String ''abc'')))"
proof -
  have 1: "payload_WriteTo (String ''abc'') \<lparr>accepted = [], script = [None, Some (2, Timeout)]\<rparr> =
     (\<lparr>accepted = [2, 0, 0], script = []\<rparr>, 0, Some Timeout)" by code_simp
  have "length (payload_frame (String ''abc'')) = 8" by code_simp
  with write_reports [OF 1] 1 show ?thesis by auto
qed

end
