(* ===== verification/Chores.thy ===== *)
theory Chores
  imports GoStrings GoIO
begin

text \<open>
  What the two chore programs of chapter12 share: the messages of homework/v1/homework.pb.go (and
  the struct of homework/homework.go), the splitting of a command line into chores, the listing
  they print, and the specification of a chore store.

  A pointer to a message is an \<open>option\<close> where the code allows it to be nil (the getters).  The command
  lines of the programs are in Programs.  The
  interface \<open>chore_store\<close> states what adding and completing promise; it is interpreted on the
  command-line program in Homework and on the RPC client with its server in Rosie.
\<close>

subsection \<open>Messages\<close>

record Chore =
  Complete :: bool
  Description :: string

record CompleteRequest =
  ChoreNumber :: i32

record Response =
  Success :: bool

definition GetComplete :: "Chore option \<Rightarrow> bool" where
  "GetComplete x = (case x of Some x \<Rightarrow> Complete x | None \<Rightarrow> False)"

definition GetDescription :: "Chore option \<Rightarrow> string" where
  "GetDescription x = (case x of Some x \<Rightarrow> Description x | None \<Rightarrow> [])"

definition GetChoreNumber :: "CompleteRequest option \<Rightarrow> i32" where
  "GetChoreNumber x = (case x of Some x \<Rightarrow> ChoreNumber x | None \<Rightarrow> 0)"

definition GetSuccess :: "Response option \<Rightarrow> bool" where
  "GetSuccess x = (case x of Some x \<Rightarrow> Success x | None \<Rightarrow> False)"

definition GetChores :: "'a list option \<Rightarrow> 'a list" where
  "GetChores x = (case x of Some cs \<Rightarrow> cs | None \<Rightarrow> [])"

text \<open>\<open>Reset\<close> assigns the zero value; what the runtime keeps beside the fields is not part of a message.\<close>

definition Chore_Reset :: "Chore \<Rightarrow> Chore" where
  "Chore_Reset x = \<lparr>Complete = False, Description = []\<rparr>"

definition Chores_Reset :: "'a list \<Rightarrow> 'a list" where
  "Chores_Reset x = []"

definition CompleteRequest_Reset :: "CompleteRequest \<Rightarrow> CompleteRequest" where
  "CompleteRequest_Reset x = \<lparr>ChoreNumber = 0\<rparr>"

definition Response_Reset :: "Response \<Rightarrow> Response" where
  "Response_Reset x = \<lparr>Success = False\<rparr>"

text \<open>A nil message reads like one that was reset.\<close>

lemma getters_Reset:
  "GetComplete (Some (Chore_Reset c)) = GetComplete None" "GetDescription (Some (Chore_Reset c)) = GetDescription None"
  "GetChores (Some (Chores_Reset cs)) = GetChores None"
  "GetChoreNumber (Some (CompleteRequest_Reset q)) = GetChoreNumber None"
  "GetSuccess (Some (Response_Reset r)) = GetSuccess None"
  by (simp_all add: GetComplete_def GetDescription_def GetChores_def GetChoreNumber_def GetSuccess_def
      Chore_Reset_def Chores_Reset_def CompleteRequest_Reset_def Response_Reset_def)

subsection \<open>Adding and marking\<close>

text \<open>The loop of \<open>add\<close>: split at commas, trim, drop what is empty, append the rest.\<close>

definition append_chores :: "Chore list \<Rightarrow> string \<Rightarrow> Chore list" where
  "append_chores cs s =
     foldl (\<lambda>cs chore. let desc = trim_space chore in
              if desc \<noteq> [] then cs @ [\<lparr>Complete = False, Description = desc\<rparr>] else cs)
       cs (split_on CHR '','' s)"

text \<open>The specification: the chores that a line of text stands for, and marking one as complete.\<close>

definition new_chores :: "string \<Rightarrow> Chore list" where
  "new_chores s =
     map (\<lambda>d. \<lparr>Complete = False, Description = d\<rparr>) (filter (\<lambda>d. d \<noteq> []) (map trim_space (split_on CHR '','' s)))"

definition mark :: "nat \<Rightarrow> Chore list \<Rightarrow> Chore list" where
  "mark k cs = cs[k := (cs ! k)\<lparr>Complete := True\<rparr>]"

lemma append_chores_new: "append_chores cs s = cs @ new_chores s"
proof -
  have "foldl (\<lambda>cs chore. let desc = trim_space chore in
              if desc \<noteq> [] then cs @ [\<lparr>Complete = False, Description = desc\<rparr>] else cs) cs ws =
    cs @ map (\<lambda>d. \<lparr>Complete = False, Description = d\<rparr>) (filter (\<lambda>d. d \<noteq> []) (map trim_space ws))" for ws
    by (induction ws arbitrary: cs) (simp_all add: Let_def)
  then show ?thesis by (simp add: append_chores_def new_chores_def)
qed

lemma new_chores_open: "c \<in> set (new_chores s) \<Longrightarrow> \<not> Complete c \<and> Description c \<noteq> []"
  by (auto simp: new_chores_def)

lemma length_mark [simp]: "length (mark k cs) = length cs"
  by (simp add: mark_def)

lemma nth_mark: "i < length cs \<Longrightarrow>
  mark k cs ! i = (if i = k then (cs ! i)\<lparr>Complete := True\<rparr> else cs ! i)"
  by (simp add: mark_def nth_list_update)

lemma Description_mark [simp]: "map Description (mark k cs) = map Description cs"
proof (cases "k < length cs")
  case True
  then show ?thesis by (simp add: mark_def map_update list_update_same_conv)
qed (simp add: mark_def not_less list_update_beyond)

subsection \<open>The listing\<close>

definition tab :: string where "tab = [CHR 0x09]"

definition list_line :: "nat \<Rightarrow> Chore \<Rightarrow> string" where
  "list_line i chore =
     show_nat (i + 1) @ tab @ ''['' @ (if Complete chore then ''X'' else '' '') @ '']'' @ tab
       @ Description chore @ newline"

fun list_lines :: "nat \<Rightarrow> Chore list \<Rightarrow> string" where
  "list_lines i [] = []"
| "list_lines i (c # cs) = list_line i c @ list_lines (i + 1) cs"

definition list_text :: "string \<Rightarrow> Chore list \<Rightarrow> string" where
  "list_text empty_msg cs =
     (if cs = [] then empty_msg @ newline
      else ''#'' @ tab @ ''[X]'' @ tab @ ''Description'' @ newline @ list_lines 0 cs)"

lemma list_lines_concat: "list_lines k cs = concat (map (\<lambda>i. list_line (k + i) (cs ! i)) [0..<length cs])"
proof (induction cs arbitrary: k)
  case Nil
  then show ?case by simp
next
  case (Cons c cs)
  have "map (\<lambda>i. list_line (k + i) ((c # cs) ! i)) [0..<length (c # cs)] =
      list_line k c # map (\<lambda>i. list_line (k + 1 + i) (cs ! i)) [0..<length cs]"
    by (simp add: upt_conv_Cons map_Suc_upt [symmetric] comp_def del: upt_Suc)
  then show ?case using Cons by simp
qed

text \<open>The line of chore \<open>i\<close> starts with the number that \<open>complete\<close> takes for it.\<close>

lemma list_line_number:
  "takeWhile (\<lambda>c. c \<noteq> CHR 0x09) (list_line i chore) = show_nat (i + 1)"
proof -
  have "c \<noteq> CHR 0x09" if "c \<in> set (show_nat n)" for c n
    using that
  proof (induction n rule: show_nat.induct)
    case (1 n)
    have d: "digit_char d \<noteq> CHR 0x09" if "d < 10" for d
      using of_digit_char [OF that] by auto
    show ?case using 1 d [of n] d [of "n mod 10"] by (subst (asm) show_nat.simps) (auto split: if_splits)
  qed
  then show ?thesis by (simp add: list_line_def tab_def)
qed

subsection \<open>The specification of a chore store\<close>

text \<open>
  A user adds chores by a line of text and completes a chore by the text of its number; \<open>num\<close> says
  which number a text stands for.  The specification is a list of chores.
\<close>

datatype command = AddCmd string | CompleteCmd string

fun spec_step :: "(string \<Rightarrow> int option) \<Rightarrow> command \<Rightarrow> Chore list \<Rightarrow> Chore list" where
  "spec_step num (AddCmd t) cs = cs @ new_chores t"
| "spec_step num (CompleteCmd t) cs =
     (case num t of
        None \<Rightarrow> cs
      | Some i \<Rightarrow> if 1 \<le> i \<and> i \<le> int (length cs) then mark (nat (i - 1)) cs else cs)"

fun spec_fails :: "(string \<Rightarrow> int option) \<Rightarrow> command \<Rightarrow> Chore list \<Rightarrow> bool" where
  "spec_fails num (AddCmd t) cs \<longleftrightarrow> False"
| "spec_fails num (CompleteCmd t) cs \<longleftrightarrow>
     (case num t of None \<Rightarrow> True | Some i \<Rightarrow> i < 1 \<or> i > int (length cs))"

definition spec_run :: "(string \<Rightarrow> int option) \<Rightarrow> command list \<Rightarrow> Chore list \<Rightarrow> Chore list" where
  "spec_run num cmds cs = foldl (\<lambda>cs c. spec_step num c cs) cs cmds"

lemma spec_run_simps [simp]:
  "spec_run num [] cs = cs"
  "spec_run num (c # cmds) cs = spec_run num cmds (spec_step num c cs)"
  by (simp_all add: spec_run_def)

lemma spec_step_grows:
  "\<exists>ds. map Description (spec_step num c cs) = map Description cs @ ds"
  by (cases c) (auto split: option.splits)

lemma spec_step_done:
  "i < length cs \<Longrightarrow> Complete (cs ! i) \<Longrightarrow>
    i < length (spec_step num c cs) \<and> Complete (spec_step num c cs ! i)"
  by (cases c) (auto simp: nth_append nth_mark split: option.splits)

lemma spec_run_grows: "prefix (map Description cs) (map Description (spec_run num cmds cs))"
proof (induction cmds arbitrary: cs)
  case Nil
  then show ?case by simp
next
  case (Cons c cmds)
  have "prefix (map Description cs) (map Description (spec_step num c cs))"
    using spec_step_grows [of num c cs] by (auto simp: prefix_def)
  then show ?case using Cons [of "spec_step num c cs"] by (auto intro: prefix_order.trans)
qed

lemma spec_run_done:
  "i < length cs \<Longrightarrow> Complete (cs ! i) \<Longrightarrow>
    i < length (spec_run num cmds cs) \<and> Complete (spec_run num cmds cs ! i)"
proof (induction cmds arbitrary: cs)
  case Nil
  then show ?case by simp
next
  case (Cons c cmds)
  then show ?case using spec_step_done [of i cs num c] by simp
qed

lemma spec_run_num_cong:
  "(\<And>t. CompleteCmd t \<in> set cmds \<Longrightarrow> num t = num' t) \<Longrightarrow> spec_run num cmds cs = spec_run num' cmds cs"
proof (induction cmds arbitrary: cs)
  case Nil
  then show ?case by simp
next
  case (Cons c cmds)
  then have "spec_step num c cs = spec_step num' c cs" by (cases c) auto
  then show ?case using Cons by simp
qed

text \<open>
  Descriptions travel and are stored as protobuf strings, which have to be valid UTF-8.
\<close>

fun text_ok :: "command \<Rightarrow> bool" where
  "text_ok (AddCmd t) \<longleftrightarrow> (\<forall>c\<in>set (new_chores t). valid_utf8 (Description c))"
| "text_ok (CompleteCmd t) \<longleftrightarrow> True"

text \<open>A user's commands, one after the other.\<close>

definition run_commands :: "(command \<Rightarrow> 's \<Rightarrow> 's \<times> go_error option) \<Rightarrow> command list \<Rightarrow> 's \<Rightarrow> 's" where
  "run_commands exec cmds s = foldl (\<lambda>s c. fst (exec c s)) s cmds"

lemma run_commands_simps [simp]:
  "run_commands exec [] s = s"
  "run_commands exec (c # cmds) s = run_commands exec cmds (fst (exec c s))"
  by (simp_all add: run_commands_def)

text \<open>
  The interface: the state's invariant, the chores it stands for, and the two commands with their
  errors.  The laws are those of the specification.
\<close>

locale chore_store =
  fixes inv :: "'s \<Rightarrow> bool"
    and chores_of :: "'s \<Rightarrow> Chore list"
    and num :: "string \<Rightarrow> int option"
    and exec :: "command \<Rightarrow> 's \<Rightarrow> 's \<times> go_error option"
  assumes exec_inv: "inv s \<Longrightarrow> text_ok c \<Longrightarrow> inv (fst (exec c s))"
    and exec_abs: "inv s \<Longrightarrow> text_ok c \<Longrightarrow> chores_of (fst (exec c s)) = spec_step num c (chores_of s)"
    and exec_err: "inv s \<Longrightarrow> text_ok c \<Longrightarrow> (snd (exec c s) \<noteq> None) = spec_fails num c (chores_of s)"
begin

lemma run_refine: "inv s \<Longrightarrow> \<forall>c\<in>set cmds. text_ok c \<Longrightarrow>
    inv (run_commands exec cmds s) \<and> chores_of (run_commands exec cmds s) = spec_run num cmds (chores_of s)"
  by (induction cmds arbitrary: s) (simp_all add: exec_inv exec_abs)

lemma run_keep: "inv s \<Longrightarrow> \<forall>c\<in>set cmds. text_ok c \<Longrightarrow>
    prefix (map Description (chores_of s)) (map Description (chores_of (run_commands exec cmds s)))"
  by (simp add: run_refine spec_run_grows)

lemma run_done: "inv s \<Longrightarrow> \<forall>c\<in>set cmds. text_ok c \<Longrightarrow>
    i < length (chores_of s) \<Longrightarrow> Complete (chores_of s ! i) \<Longrightarrow>
    i < length (chores_of (run_commands exec cmds s)) \<and> Complete (chores_of (run_commands exec cmds s) ! i)"
  by (simp add: run_refine spec_run_done)

lemma complete_one:
  assumes "inv s" "snd (exec (CompleteCmd t) s) = None" "i < length (chores_of s)"
  shows "chores_of (fst (exec (CompleteCmd t) s)) ! i =
    (if num t = Some (int i + 1) then (chores_of s ! i)\<lparr>Complete := True\<rparr> else chores_of s ! i)"
  using assms exec_err [of s "CompleteCmd t"]
  by (auto simp: exec_abs nth_mark split: option.splits)

end

end
