(* ===== verification/Homework.thy ===== *)
theory Homework
  imports Chores
begin

text \<open>
  The command-line chore program: the storage packages chapter12/json, gob and proto, and
  chapter12/homework.go with its functions load, flush, list, add, complete and main.

  The encoders (encoding/json, encoding/gob, google.golang.org/protobuf) are parameters.  The
  program picks one storage package by an import; here it is a value of type \<open>storage\<close>.  The world
  is the data file, what was printed, and the errors the file system will report.
\<close>

subsection \<open>The storage packages\<close>

text \<open>
  \<open>return chores, Decode(&chores)\<close> evaluates a variable and a call that changes it; Go does not
  specify in which order.  The order is a parameter: \<open>CallFirst\<close> returns the variable's new
  contents (what the authors rely on), \<open>OperandFirst\<close> the nil slice it held before.
\<close>

datatype eval_order = CallFirst | OperandFirst

definition return_after :: "eval_order \<Rightarrow> 'a list \<Rightarrow> 'a list \<times> go_error option \<Rightarrow> 'a list \<times> go_error option" where
  "return_after ord old call = (case ord of CallFirst \<Rightarrow> call | OperandFirst \<Rightarrow> (old, snd call))"

text \<open>
  \<open>decode\<close> is \<open>NewDecoder(r).Decode\<close>: what it leaves in the slice, and its error.  The decoder
  reads from the reader's start, so the pieces do not matter to \<open>Load\<close>.
\<close>

definition json_Load ::
  "eval_order \<Rightarrow> (reader \<Rightarrow> 'a list \<times> go_error option) \<Rightarrow> reader \<Rightarrow> 'a list \<times> go_error option" where
  "json_Load ord decode r = (let chores = [] in return_after ord chores (decode r))"

definition json_Flush ::
  "('a list \<Rightarrow> writer \<Rightarrow> writer \<times> go_error option) \<Rightarrow> writer \<Rightarrow> 'a list \<Rightarrow> writer \<times> go_error option" where
  "json_Flush encode w chores = encode chores w"

definition gob_Load ::
  "eval_order \<Rightarrow> (reader \<Rightarrow> 'a list \<times> go_error option) \<Rightarrow> reader \<Rightarrow> 'a list \<times> go_error option" where
  "gob_Load ord decode r = (let chores = [] in return_after ord chores (decode r))"

definition gob_Flush ::
  "('a list \<Rightarrow> writer \<Rightarrow> writer \<times> go_error option) \<Rightarrow> writer \<Rightarrow> 'a list \<Rightarrow> writer \<times> go_error option" where
  "gob_Flush encode w chores = encode chores w"

definition proto_Load ::
  "eval_order \<Rightarrow> (byte list \<Rightarrow> 'a list \<times> go_error option) \<Rightarrow> reader \<Rightarrow> 'a list \<times> go_error option" where
  "proto_Load ord unmarshal r =
     (case read_all r of
        (_, b, Some err) \<Rightarrow> ([], Some err)
      | (_, b, None) \<Rightarrow> let chores = [] in return_after ord chores (unmarshal b))"

definition proto_Flush ::
  "('a list \<Rightarrow> byte list result) \<Rightarrow> writer \<Rightarrow> 'a list \<Rightarrow> writer \<times> go_error option" where
  "proto_Flush marshal w chores =
     (case marshal chores of
        Inl err \<Rightarrow> (w, Some err)
      | Inr b \<Rightarrow> (case wr_write b w of (w, _, err) \<Rightarrow> (w, err)))"

record storage =
  Load :: "reader \<Rightarrow> Chore list \<times> go_error option"
  Flush :: "writer \<Rightarrow> Chore list \<Rightarrow> writer \<times> go_error option"

definition proto_storage ::
  "eval_order \<Rightarrow> (Chore list \<Rightarrow> byte list result) \<Rightarrow> (byte list \<Rightarrow> Chore list \<times> go_error option) \<Rightarrow> storage" where
  "proto_storage ord marshal unmarshal =
     \<lparr>Load = proto_Load ord unmarshal, Flush = proto_Flush marshal\<rparr>"

subsection \<open>The program\<close>

record world =
  dataFile :: "byte list option"
  stdout :: string
  open_err :: "go_error option"
  create_err :: "go_error option"
  close_err :: "go_error option"
  read_end :: go_error
  write_faults :: "(nat \<times> go_error) option list"

text \<open>The method \<open>Error\<close> of an error, and \<open>fmt.Print\<close>.\<close>

fun error_text :: "go_error \<Rightarrow> string" where
  "error_text EOF = ''EOF''"
| "error_text UnexpectedEOF = ''unexpected EOF''"
| "error_text Timeout = ''i/o timeout''"
| "error_text (ErrText s) = s"
| "error_text (Wrapped s e) = s"

definition printf :: "string \<Rightarrow> world \<Rightarrow> world" where
  "printf s w = w\<lparr>stdout := stdout w @ s\<rparr>"

definition close_file :: "world \<Rightarrow> world" where
  "close_file w =
     (case close_err w of
        None \<Rightarrow> w
      | Some err \<Rightarrow> printf (''closing data file: '' @ error_text err) w)"

definition file_reader :: "go_error \<Rightarrow> byte list \<Rightarrow> reader" where
  "file_reader e b = \<lparr>chunks = (if b = [] then [] else [b]), fin = e, end_first = False\<rparr>"

definition load :: "storage \<Rightarrow> world \<Rightarrow> world \<times> Chore list \<times> go_error option" where
  "load st w =
     (case dataFile w of
        None \<Rightarrow> (w, [], None)
      | Some b \<Rightarrow>
          (case open_err w of
             Some err \<Rightarrow> (w, [], Some err)
           | None \<Rightarrow> (case Load st (file_reader (read_end w) b) of (cs, err) \<Rightarrow> (close_file w, cs, err))))"

definition flush :: "storage \<Rightarrow> Chore list \<Rightarrow> world \<Rightarrow> world \<times> go_error option" where
  "flush st chores w =
     (case create_err w of
        Some err \<Rightarrow> (w, Some err)
      | None \<Rightarrow>
          (case Flush st \<lparr>accepted = [], script = write_faults w\<rparr> chores of
             (f, err) \<Rightarrow>
               (close_file (w\<lparr>dataFile := Some (accepted f), write_faults := script f\<rparr>), err)))"

definition list_cmd :: "storage \<Rightarrow> world \<Rightarrow> world \<times> go_error option" where
  "list_cmd st w =
     (case load st w of
        (w, _, Some err) \<Rightarrow> (w, Some err)
      | (w, chores, None) \<Rightarrow> (printf (list_text ''You're all caught up!'' chores) w, None))"

definition add :: "storage \<Rightarrow> string \<Rightarrow> world \<Rightarrow> world \<times> go_error option" where
  "add st s w =
     (case load st w of
        (w, _, Some err) \<Rightarrow> (w, Some err)
      | (w, chores, None) \<Rightarrow> flush st (append_chores chores s) w)"

definition not_found :: "int \<Rightarrow> go_error" where
  "not_found i = ErrText (''chore '' @ show_int i @ '' not found'')"

definition complete :: "storage \<Rightarrow> string \<Rightarrow> world \<Rightarrow> world \<times> go_error option" where
  "complete st s w =
     (case atoi s of
        Inl err \<Rightarrow> (w, Some err)
      | Inr i \<Rightarrow>
          (case load st w of
             (w, _, Some err) \<Rightarrow> (w, Some err)
           | (w, chores, None) \<Rightarrow>
               if i < 1 \<or> i > int (length chores) then (w, Some (not_found i))
               else
                 let k = nat (i - 1) in flush st (chores[k := (chores ! k)\<lparr>Complete := True\<rparr>]) w))"

lemmas complete_mark = complete_def [unfolded Let_def, folded mark_def]

text \<open>\<open>flag.Arg(i)\<close>; \<open>main\<close> ends with the error given to \<open>log.Fatal\<close>, if any.\<close>

definition flag_Arg :: "nat \<Rightarrow> string list \<Rightarrow> string" where
  "flag_Arg i args = (if i < length args then args ! i else [])"

definition main :: "storage \<Rightarrow> string list \<Rightarrow> world \<Rightarrow> world \<times> go_error option" where
  "main st args w =
     (let cmd = to_lower (flag_Arg 0 args);
          (w, err) = (if cmd = ''add'' then add st (join '' '' (tl args)) w
                      else if cmd = ''complete'' then complete st (flag_Arg 1 args) w
                      else (w, None)) in
      case err of
        Some e \<Rightarrow> (w, Some e)
      | None \<Rightarrow> list_cmd st w)"

subsection \<open>The program as a chore store\<close>

text \<open>
  What a storage package promises: what \<open>Flush\<close> writes for chores with valid descriptions is read
  back by \<open>Load\<close>, in whatever pieces the file is read.
\<close>

definition storage_ok :: "storage \<Rightarrow> bool" where
  "storage_ok st \<longleftrightarrow>
     (\<forall>cs. (\<forall>c\<in>set cs. valid_utf8 (Description c)) \<longrightarrow>
        (\<exists>b. (\<forall>w. script w = [] \<longrightarrow> Flush st w cs = (w\<lparr>accepted := accepted w @ b\<rparr>, None)) \<and>
             (\<forall>r. stream r = b \<and> fin r = EOF \<longrightarrow> Load st r = (cs, None))))"

definition protobuf_law ::
  "(Chore list \<Rightarrow> byte list result) \<Rightarrow> (byte list \<Rightarrow> Chore list \<times> go_error option) \<Rightarrow> bool" where
  "protobuf_law marshal unmarshal \<longleftrightarrow>
     (\<forall>cs. (\<forall>c\<in>set cs. valid_utf8 (Description c)) \<longrightarrow>
        (\<exists>b. marshal cs = Inr b \<and> unmarshal b = (cs, None)))"

lemma proto_storage_ok:
  assumes "protobuf_law marshal unmarshal"
  shows "storage_ok (proto_storage CallFirst marshal unmarshal)"
  unfolding storage_ok_def
proof (intro allI impI)
  fix cs :: "Chore list"
  assume "\<forall>c\<in>set cs. valid_utf8 (Description c)"
  then obtain b where "marshal cs = Inr b" "unmarshal b = (cs, None)"
    using assms by (auto simp: protobuf_law_def)
  then show "\<exists>b. (\<forall>w. script w = [] \<longrightarrow> Flush (proto_storage CallFirst marshal unmarshal) w cs =
              (w\<lparr>accepted := accepted w @ b\<rparr>, None)) \<and>
            (\<forall>r. stream r = b \<and> fin r = EOF \<longrightarrow>
              Load (proto_storage CallFirst marshal unmarshal) r = (cs, None))"
    by (intro exI [of _ b])
      (auto simp: proto_storage_def proto_Flush_def proto_Load_def read_all_def return_after_def)
qed

definition atoi_num :: "string \<Rightarrow> int option" where
  "atoi_num t = (case atoi t of Inl _ \<Rightarrow> None | Inr i \<Rightarrow> Some i)"

fun cli_exec :: "command \<Rightarrow> storage \<times> world \<Rightarrow> (storage \<times> world) \<times> go_error option" where
  "cli_exec (AddCmd t) (st, w) = (case add st t w of (w, e) \<Rightarrow> ((st, w), e))"
| "cli_exec (CompleteCmd t) (st, w) = (case complete st t w of (w, e) \<Rightarrow> ((st, w), e))"

fun cli_chores :: "storage \<times> world \<Rightarrow> Chore list" where
  "cli_chores (st, w) =
     (case dataFile w of None \<Rightarrow> [] | Some b \<Rightarrow> fst (Load st (file_reader EOF b)))"

text \<open>No fault is pending, and the data file is absent or holds chores.\<close>

fun cli_inv :: "storage \<times> world \<Rightarrow> bool" where
  "cli_inv (st, w) \<longleftrightarrow>
     storage_ok st \<and> open_err w = None \<and> create_err w = None \<and> read_end w = EOF \<and> write_faults w = [] \<and>
     (case dataFile w of None \<Rightarrow> True | Some b \<Rightarrow> snd (Load st (file_reader EOF b)) = None) \<and>
     (\<forall>c\<in>set (cli_chores (st, w)). valid_utf8 (Description c))"

lemma close_file_fields [simp]:
  "dataFile (close_file w) = dataFile w" "open_err (close_file w) = open_err w"
  "create_err (close_file w) = create_err w" "read_end (close_file w) = read_end w"
  "write_faults (close_file w) = write_faults w" "close_err (close_file w) = close_err w"
  by (auto simp: close_file_def printf_def split: option.splits)

lemma stream_file_reader [simp]: "stream (file_reader e b) = b" "fin (file_reader e b) = e"
  by (auto simp: file_reader_def stream_def)

definition reclosed :: "world \<Rightarrow> world" where
  "reclosed w = (if dataFile w = None then w else close_file w)"

lemma load_ok: "cli_inv (st, w) \<Longrightarrow> load st w = (reclosed w, cli_chores (st, w), None)"
  by (auto simp: load_def reclosed_def prod_eq_iff split: option.splits prod.splits)

lemma reclosed_inv [simp]: "cli_inv (st, reclosed w) = cli_inv (st, w)"
  "cli_chores (st, reclosed w) = cli_chores (st, w)"
  by (auto simp: reclosed_def)

lemma flush_ok:
  assumes "cli_inv (st, w)" and "\<forall>c\<in>set cs. valid_utf8 (Description c)"
  shows "snd (flush st cs w) = None \<and> cli_inv (st, fst (flush st cs w)) \<and>
    cli_chores (st, fst (flush st cs w)) = cs"
proof -
  obtain b where b: "\<And>w. script w = [] \<Longrightarrow> Flush st w cs = (w\<lparr>accepted := accepted w @ b\<rparr>, None)"
    "\<And>r. stream r = b \<Longrightarrow> fin r = EOF \<Longrightarrow> Load st r = (cs, None)"
    using assms by (force simp: storage_ok_def)
  have "Load st (file_reader EOF b) = (cs, None)" by (rule b(2)) simp_all
  with assms b(1) [of "\<lparr>accepted = [], script = []\<rparr>"] show ?thesis by (auto simp: flush_def)
qed

lemma mark_valid: "\<forall>c\<in>set cs. valid_utf8 (Description c) \<Longrightarrow> c \<in> set (mark k cs) \<Longrightarrow> valid_utf8 (Description c)"
  by (metis (no_types, lifting) Description_mark image_eqI image_iff list.set_map)

lemma cli_complete:
  assumes "cli_inv (st, w)" and "atoi t = Inr i"
  shows "complete st t w =
    (if i < 1 \<or> i > int (length (cli_chores (st, w))) then (reclosed w, Some (not_found i))
     else flush st (mark (nat (i - 1)) (cli_chores (st, w))) (reclosed w))"
  using assms load_ok [OF assms(1)] by (simp add: complete_mark)

lemma cli_add:
  "cli_inv (st, w) \<Longrightarrow> add st t w = flush st (cli_chores (st, w) @ new_chores t) (reclosed w)"
  using load_ok [of st w] by (simp add: add_def append_chores_new)

lemma cli_exec_spec:
  assumes "cli_inv (st, w)" and "text_ok c"
  shows "cli_inv (fst (cli_exec c (st, w))) \<and>
    cli_chores (fst (cli_exec c (st, w))) = spec_step atoi_num c (cli_chores (st, w)) \<and>
    (snd (cli_exec c (st, w)) \<noteq> None) = spec_fails atoi_num c (cli_chores (st, w))"
proof (cases c)
  case (AddCmd t)
  have inv: "cli_inv (st, reclosed w)" using assms(1) by (simp del: cli_inv.simps)
  have "\<forall>c\<in>set (cli_chores (st, w) @ new_chores t). valid_utf8 (Description c)"
    using assms AddCmd by auto
  from flush_ok [OF inv this] show ?thesis
    using AddCmd cli_add [OF assms(1)] by (simp add: prod.case_eq_if del: cli_inv.simps cli_chores.simps)
next
  case (CompleteCmd t)
  show ?thesis
  proof (cases "atoi t")
    case (Inl e)
    then show ?thesis using CompleteCmd assms(1) by (simp add: complete_mark atoi_num_def)
  next
    case (Inr i)
    have inv: "cli_inv (st, reclosed w)" using assms(1) by (simp del: cli_inv.simps)
    have "\<forall>c\<in>set (cli_chores (st, w)). valid_utf8 (Description c)" using assms(1) by simp
    then have "\<forall>c\<in>set (mark (nat (i - 1)) (cli_chores (st, w))). valid_utf8 (Description c)"
      using mark_valid by blast
    from flush_ok [OF inv this] show ?thesis
      using CompleteCmd Inr cli_complete [OF assms(1) Inr] inv
      by (auto simp: prod.case_eq_if atoi_num_def simp del: cli_inv.simps cli_chores.simps)
  qed
qed

interpretation cli: chore_store cli_inv cli_chores atoi_num cli_exec
proof unfold_locales
  fix s c
  assume "cli_inv s" "text_ok c"
  then show "cli_inv (fst (cli_exec c s))" "cli_chores (fst (cli_exec c s)) = spec_step atoi_num c (cli_chores s)"
    "(snd (cli_exec c s) \<noteq> None) = spec_fails atoi_num c (cli_chores s)"
    using cli_exec_spec by (metis prod.exhaust)+
qed

subsection \<open>A codec for the witnesses\<close>

text \<open>
  An encoding that satisfies \<open>protobuf_law\<close>: a flag, then the description with every byte preceded
  by 1 and closed by 0.
\<close>

fun toy_desc :: "string \<Rightarrow> byte list" where
  "toy_desc [] = [0]"
| "toy_desc (c # s) = 1 # byte_of c # toy_desc s"

fun toy_marshal :: "Chore list \<Rightarrow> byte list result" where
  "toy_marshal [] = Inr []"
| "toy_marshal (c # cs) =
     (case toy_marshal cs of
        Inl e \<Rightarrow> Inl e
      | Inr b \<Rightarrow> Inr ((if Complete c then 1 else 0) # toy_desc (Description c) @ b))"

fun toy_parse :: "bool option \<Rightarrow> string \<Rightarrow> byte list \<Rightarrow> Chore list \<times> go_error option" where
  "toy_parse None d [] = ([], None)"
| "toy_parse None d (f # b) = toy_parse (Some (f = 1)) [] b"
| "toy_parse (Some f) d [] = ([], Some UnexpectedEOF)"
| "toy_parse (Some f) d (m # b) =
     (if m = 0 then
        (case toy_parse None [] b of (cs, e) \<Rightarrow> (\<lparr>Complete = f, Description = d\<rparr> # cs, e))
      else (case b of
              [] \<Rightarrow> ([], Some UnexpectedEOF)
            | c # b \<Rightarrow> toy_parse (Some f) (d @ [char_of_byte c]) b))"

definition toy_unmarshal :: "byte list \<Rightarrow> Chore list \<times> go_error option" where
  "toy_unmarshal b = toy_parse None [] b"

lemma toy_parse_desc: "toy_parse (Some f) d (toy_desc s @ b) =
  (case toy_parse None [] b of (cs, e) \<Rightarrow> (\<lparr>Complete = f, Description = d @ s\<rparr> # cs, e))"
  by (induction s arbitrary: d) simp_all

lemma toy_roundtrip: "\<exists>b. toy_marshal cs = Inr b \<and> toy_unmarshal b = (cs, None)"
proof (induction cs)
  case Nil
  then show ?case by (simp add: toy_unmarshal_def)
next
  case (Cons c cs)
  then show ?case by (auto simp: toy_unmarshal_def toy_parse_desc)
qed

definition toy_storage :: storage where
  "toy_storage = proto_storage CallFirst toy_marshal toy_unmarshal"

lemma toy_storage_ok: "storage_ok toy_storage"
  unfolding toy_storage_def by (rule proto_storage_ok) (simp add: protobuf_law_def toy_roundtrip)

definition fresh_world :: world where
  "fresh_world = \<lparr>dataFile = None, stdout = [], open_err = None, create_err = None,
     close_err = None, read_end = EOF, write_faults = []\<rparr>"

lemma fresh_inv: "cli_inv (toy_storage, fresh_world)"
  by (simp add: toy_storage_ok fresh_world_def)

lemma toy_protobuf_law: "protobuf_law toy_marshal toy_unmarshal"
  by (simp add: protobuf_law_def toy_roundtrip)

subsection \<open>What the program does\<close>

fun command_of :: "string list \<Rightarrow> command option" where
  "command_of args =
     (let cmd = to_lower (flag_Arg 0 args) in
      if cmd = ''add'' then Some (AddCmd (join '' '' (tl args)))
      else if cmd = ''complete'' then Some (CompleteCmd (flag_Arg 1 args))
      else None)"

definition all_done_msg :: string where
  "all_done_msg = ''You're all caught up!''"

lemma main_exec:
  "main st args w =
     (case command_of args of
        None \<Rightarrow> list_cmd st w
      | Some c \<Rightarrow>
          (case snd (cli_exec c (st, w)) of
             Some e \<Rightarrow> (snd (fst (cli_exec c (st, w))), Some e)
           | None \<Rightarrow> list_cmd st (snd (fst (cli_exec c (st, w))))))"
  by (auto simp: main_def Let_def split: prod.splits option.splits)

lemma list_cmd_ok:
  "cli_inv (st, w) \<Longrightarrow> list_cmd st w = (printf (list_text all_done_msg (cli_chores (st, w))) (reclosed w), None)"
  using load_ok [of st w] by (simp add: list_cmd_def all_done_msg_def)

lemma fst_cli_exec: "fst (fst (cli_exec c (st, w))) = st"
  by (cases c) (simp_all add: prod.case_eq_if)

lemma cli_exec_stdout:
  "close_err w = None \<Longrightarrow> stdout (snd (fst (cli_exec c (st, w)))) = stdout w \<and>
    close_err (snd (fst (cli_exec c (st, w)))) = None"
proof -
  assume c: "close_err w = None"
  have l: "load st w = (w, a, e) \<or> load st w \<noteq> (w', a, e)" for w' a e
    using c by (auto simp: load_def close_file_def split: option.splits prod.splits)
  have f: "stdout (fst (flush st cs w)) = stdout w \<and> close_err (fst (flush st cs w)) = None" for cs
    using c by (auto simp: flush_def close_file_def split: option.splits prod.splits)
  obtain w' cs e where r: "load st w = (w', cs, e)" by (metis prod_cases3)
  with l have w': "w' = w" by (metis fst_conv)
  show ?thesis
    using r f c unfolding w'
    by (cases c) (auto simp: add_def complete_mark prod.case_eq_if split: option.splits sum.splits)
qed

lemma cli_exec_fails_same:
  assumes "cli_inv (st, w)" and "spec_fails atoi_num c (cli_chores (st, w))"
  shows "snd (fst (cli_exec c (st, w))) \<in> {w, reclosed w}"
proof (cases c)
  case (CompleteCmd t)
  then show ?thesis
    using assms cli_complete [OF assms(1), of t]
    by (cases "atoi t") (auto simp: complete_mark atoi_num_def simp del: cli_inv.simps cli_chores.simps)
qed (use assms in simp)

text \<open>
  C16: One run of the program on a data file in order: \<open>add\<close> appends the trimmed non-empty parts of
  the arguments, \<open>complete\<close> marks the chore its number names, both print the new list and leave it
  in the file; a text that is not a number or a number out of range leaves the file and the output
  alone and ends the program with an error; any other command only lists.
\<close>

theorem main_runs_command:
  assumes "cli_inv (st, w)" and "close_err w = None"
    and "\<And>c. command_of args = Some c \<Longrightarrow> text_ok c"
  shows "case command_of args of
      None \<Rightarrow> main st args w = (printf (list_text all_done_msg (cli_chores (st, w))) w, None)
    | Some c \<Rightarrow>
        if spec_fails atoi_num c (cli_chores (st, w)) then \<exists>e. main st args w = (w, Some e)
        else cli_chores (st, fst (main st args w)) = spec_step atoi_num c (cli_chores (st, w)) \<and>
          snd (main st args w) = None \<and>
          stdout (fst (main st args w)) =
            stdout w @ list_text all_done_msg (spec_step atoi_num c (cli_chores (st, w)))"
proof (cases "command_of args")
  case None
  then show ?thesis
    using list_cmd_ok [OF assms(1)] assms(2) by (simp add: main_exec reclosed_def close_file_def)
next
  case (Some c)
  let ?r = "cli_exec c (st, w)"
  let ?w = "snd (fst ?r)"
  note spec = cli_exec_spec [OF assms(1) assms(3) [OF Some]]
  note out = cli_exec_stdout [OF assms(2), of c st]
  show ?thesis
  proof (cases "spec_fails atoi_num c (cli_chores (st, w))")
    case True
    then obtain e where "snd ?r = Some e" using spec by auto
    moreover have "?w = w" using cli_exec_fails_same [OF assms(1) True] assms(2)
      by (auto simp: reclosed_def close_file_def)
    ultimately have "main st args w = (w, Some e)" using Some
      by (simp add: main_exec)
    with Some True show ?thesis by simp
  next
    case False
    then have e: "snd ?r = None" using spec by auto
    have inv: "cli_inv (st, ?w)" "cli_chores (st, ?w) = spec_step atoi_num c (cli_chores (st, w))"
      using spec fst_cli_exec [of c st w] by (metis prod.collapse)+
    have "main st args w = list_cmd st ?w" using Some e by (simp add: main_exec)
    also have "\<dots> = (printf (list_text all_done_msg (cli_chores (st, ?w))) ?w, None)"
      using list_cmd_ok [OF inv(1)] out by (simp add: reclosed_def close_file_def)
    finally show ?thesis using Some False inv(2) out by (simp add: printf_def)
  qed
qed

theorem main_runs_command_witness:
  "cli_chores (toy_storage, fst (main toy_storage [''ADD'', ''mop ,'', ''  '', '',cook''] fresh_world)) =
     [\<lparr>Complete = False, Description = ''mop''\<rparr>, \<lparr>Complete = False, Description = ''cook''\<rparr>]"
proof -
  let ?args = "[''ADD'', ''mop ,'', ''  '', '',cook'']"
  have c: "command_of ?args = Some (AddCmd ''mop ,    ,cook'')" by code_simp
  have n: "new_chores ''mop ,    ,cook'' =
    [\<lparr>Complete = False, Description = ''mop''\<rparr>, \<lparr>Complete = False, Description = ''cook''\<rparr>]" by code_simp
  have "cli_chores (toy_storage, fresh_world) = []" by (simp add: fresh_world_def)
  moreover have "text_ok (AddCmd ''mop ,    ,cook'')" by (simp add: n valid_utf8_ascii)
  ultimately show ?thesis
    using main_runs_command [OF fresh_inv, of ?args] c n by (simp add: fresh_world_def)
qed

text \<open>
  C6: A whole history of \<open>add\<close> and \<open>complete\<close> commands, failing ones included, leaves in the data
  file exactly the list that the specification computes; in particular no command ever drops,
  renames or reorders a chore, and a chore once completed stays completed.
\<close>

theorem cli_refines:
  assumes "cli_inv (st, w)" and "\<forall>c\<in>set cmds. text_ok c"
  shows "let before = cli_chores (st, w); after = cli_chores (run_commands cli_exec cmds (st, w)) in
    after = spec_run atoi_num cmds before \<and>
    prefix (map Description before) (map Description after) \<and>
    (\<forall>i < length before. Complete (before ! i) \<longrightarrow> i < length after \<and> Complete (after ! i))"
  unfolding Let_def
  using cli.run_refine [OF assms] cli.run_keep [OF assms] cli.run_done [OF assms] by blast

theorem cli_refines_witness:
  "cli_chores (run_commands cli_exec [AddCmd ''a,b'', CompleteCmd ''2'', CompleteCmd ''9'', AddCmd ''c'']
     (toy_storage, fresh_world)) =
   [\<lparr>Complete = False, Description = ''a''\<rparr>, \<lparr>Complete = True, Description = ''b''\<rparr>,
    \<lparr>Complete = False, Description = ''c''\<rparr>]"
proof -
  let ?cmds = "[AddCmd ''a,b'', CompleteCmd ''2'', CompleteCmd ''9'', AddCmd ''c'']"
  have n: "new_chores ''a,b'' = [\<lparr>Complete = False, Description = ''a''\<rparr>, \<lparr>Complete = False, Description = ''b''\<rparr>]"
    "new_chores ''c'' = [\<lparr>Complete = False, Description = ''c''\<rparr>]" by code_simp+
  have "\<forall>c\<in>set ?cmds. text_ok c" by (simp add: n valid_utf8_ascii)
  then have "cli_chores (run_commands cli_exec ?cmds (toy_storage, fresh_world)) =
      spec_run atoi_num ?cmds (cli_chores (toy_storage, fresh_world))"
    using cli_refines [OF fresh_inv, of ?cmds] unfolding Let_def by blast
  moreover have "cli_chores (toy_storage, fresh_world) = []" by (simp add: fresh_world_def)
  moreover have "spec_run atoi_num ?cmds [] =
   [\<lparr>Complete = False, Description = ''a''\<rparr>, \<lparr>Complete = True, Description = ''b''\<rparr>,
    \<lparr>Complete = False, Description = ''c''\<rparr>]"
    by (simp add: n atoi_num_def atoi_def Let_def mark_def)
  ultimately show ?thesis by (simp only:)
qed

text \<open>
  The listing is its header and one line per chore, and the number that line \<open>i\<close> starts with,
  given back to \<open>complete\<close>, marks exactly the chore printed on that line.
\<close>

theorem listed_number_completes:
  assumes "cli_inv (st, w)" and "i < length (cli_chores (st, w))" and "length (cli_chores (st, w)) < 2 ^ 63"
  shows "let cs = cli_chores (st, w); line = \<lambda>i. list_line i (cs ! i);
           (w', e) = complete st (takeWhile (\<lambda>c. c \<noteq> CHR 0x09) (line i)) w in
    list_text all_done_msg cs =
      ''#'' @ tab @ ''[X]'' @ tab @ ''Description'' @ newline @ concat (map line [0..<length cs]) \<and>
    e = None \<and> cli_chores (st, w') = mark i cs"
proof -
  let ?cs = "cli_chores (st, w)"
  have a: "atoi (show_nat (i + 1)) = Inr (int (i + 1))" using assms(2,3) by (intro atoi_show_nat) simp
  have "complete st (show_nat (i + 1)) w = flush st (mark i ?cs) (reclosed w)"
    using cli_complete [OF assms(1) a] assms(2) by simp
  moreover have "cli_inv (st, reclosed w)" using assms(1) by (simp del: cli_inv.simps)
  moreover have "\<forall>c\<in>set (mark i ?cs). valid_utf8 (Description c)"
    using assms(1) mark_valid [of ?cs _ i] by (meson cli_inv.simps)
  ultimately have "snd (complete st (show_nat (i + 1)) w) = None \<and>
      cli_chores (st, fst (complete st (show_nat (i + 1)) w)) = mark i ?cs"
    using flush_ok by metis
  moreover have "list_text all_done_msg ?cs =
      ''#'' @ tab @ ''[X]'' @ tab @ ''Description'' @ newline @
      concat (map (\<lambda>i. list_line i (?cs ! i)) [0..<length ?cs])"
    using assms(2) list_lines_concat [of 0 ?cs] by (auto simp: list_text_def simp del: cli_chores.simps)
  ultimately show ?thesis
    unfolding Let_def list_line_number by (simp add: prod.case_eq_if del: cli_chores.simps)
qed

definition chores_world :: world where
  "chores_world = fst (main toy_storage [''add'', ''mop,cook''] fresh_world)"

lemma chores_world_inv: "cli_inv (toy_storage, chores_world)"
  "cli_chores (toy_storage, chores_world) =
    [\<lparr>Complete = False, Description = ''mop''\<rparr>, \<lparr>Complete = False, Description = ''cook''\<rparr>]"
proof -
  have w: "chores_world = \<lparr>dataFile = Some [0, 1, 109, 1, 111, 1, 112, 0, 0, 1, 99, 1, 111, 1, 111, 1, 107, 0],
      stdout = stdout chores_world, open_err = None, create_err = None, close_err = None,
      read_end = EOF, write_faults = []\<rparr>"
    by code_simp
  have l: "Load toy_storage (file_reader EOF
      [0, 1, 109, 1, 111, 1, 112, 0, 0, 1, 99, 1, 111, 1, 111, 1, 107, 0]) =
      ([\<lparr>Complete = False, Description = ''mop''\<rparr>, \<lparr>Complete = False, Description = ''cook''\<rparr>], None)"
    by code_simp
  show c: "cli_chores (toy_storage, chores_world) =
    [\<lparr>Complete = False, Description = ''mop''\<rparr>, \<lparr>Complete = False, Description = ''cook''\<rparr>]"
    by (subst w) (simp add: l)
  show "cli_inv (toy_storage, chores_world)"
    by (subst w) (simp add: l toy_storage_ok valid_utf8_ascii)
qed

theorem listed_number_completes_witness:
  "cli_chores (toy_storage, fst (complete toy_storage ''2'' chores_world)) =
    [\<lparr>Complete = False, Description = ''mop''\<rparr>, \<lparr>Complete = True, Description = ''cook''\<rparr>]"
proof -
  let ?cs = "[\<lparr>Complete = False, Description = ''mop''\<rparr>, \<lparr>Complete = False, Description = ''cook''\<rparr>]"
  have t: "takeWhile (\<lambda>c. c \<noteq> CHR 0x09) (list_line 1 (?cs ! 1)) = ''2''" by code_simp
  have m: "mark 1 ?cs =
    [\<lparr>Complete = False, Description = ''mop''\<rparr>, \<lparr>Complete = True, Description = ''cook''\<rparr>]" by code_simp
  show ?thesis
    using listed_number_completes [OF chores_world_inv(1), of 1] t m
    unfolding Let_def chores_world_inv(2) by (simp add: prod.case_eq_if del: cli_chores.simps)
qed

text \<open>
  \<open>flush\<close> is not atomic: \<open>os.Create\<close> has already emptied the file when encoding or writing fails,
  so what is left is the empty file or the part of the encoding that was written, whatever the file
  held before.
\<close>

theorem flush_not_atomic:
  assumes "create_err w = None"
  shows "dataFile (fst (flush (proto_storage ord marshal unmarshal) cs w)) =
      Some (case marshal cs of
              Inl _ \<Rightarrow> []
            | Inr b \<Rightarrow> (case write_faults w of Some (k, _) # _ \<Rightarrow> take k b | _ \<Rightarrow> b)) \<and>
    snd (flush (proto_storage ord marshal unmarshal) cs w) =
      (case marshal cs of
         Inl e \<Rightarrow> Some e
       | Inr b \<Rightarrow> (case write_faults w of Some (_, e) # _ \<Rightarrow> Some e | _ \<Rightarrow> None))"
  using assms
  by (auto simp: flush_def proto_storage_def proto_Flush_def wr_write_def
      split: sum.splits list.splits option.splits prod.splits)

theorem flush_not_atomic_witness:
  "dataFile (fst (complete toy_storage ''1'' (chores_world\<lparr>write_faults := [Some (4, Timeout)]\<rparr>))) =
     Some [1, 1, 109, 1]"
proof -
  let ?w = "chores_world\<lparr>write_faults := [Some (4, Timeout)]\<rparr>"
  let ?cs = "[\<lparr>Complete = True, Description = ''mop''\<rparr>, \<lparr>Complete = False, Description = ''cook''\<rparr>]"
  have "complete toy_storage ''1'' ?w = flush toy_storage ?cs ?w"
  proof -
    have "load toy_storage ?w = (?w,
      [\<lparr>Complete = False, Description = ''mop''\<rparr>, \<lparr>Complete = False, Description = ''cook''\<rparr>], None)"
      by code_simp
    then show ?thesis by (simp add: complete_mark atoi_def Let_def mark_def)
  qed
  moreover have "create_err ?w = None" by code_simp
  moreover have "toy_marshal ?cs = Inr [1, 1, 109, 1, 111, 1, 112, 0, 0, 1, 99, 1, 111, 1, 111, 1, 107, 0]"
    by code_simp
  ultimately show ?thesis
    using flush_not_atomic [of ?w CallFirst toy_marshal toy_unmarshal ?cs] by (simp add: toy_storage_def)
qed

text \<open>
  The program depends on Go evaluating the call in \<open>return chores, Unmarshal(...)\<close> before the
  variable: then \<open>add\<close> writes the stored chores followed by the new ones, but if the variable is read
  first \<open>Load\<close> returns no chores and no error, and \<open>add\<close> replaces the whole list by the new chores.
\<close>

theorem load_needs_call_first:
  assumes "dataFile w = Some b" and "unmarshal b = (old, None)"
    and "open_err w = None" and "close_err w = None" and "read_end w = EOF"
  shows "add (proto_storage CallFirst marshal unmarshal) t w =
      flush (proto_storage CallFirst marshal unmarshal) (old @ new_chores t) w \<and>
    add (proto_storage OperandFirst marshal unmarshal) t w =
      flush (proto_storage OperandFirst marshal unmarshal) (new_chores t) w"
  using assms
  by (simp_all add: add_def load_def proto_storage_def proto_Load_def read_all_def return_after_def
      append_chores_new close_file_def)

theorem load_needs_call_first_witness:
  "dataFile (fst (add (proto_storage OperandFirst toy_marshal toy_unmarshal) ''x''
      (fresh_world\<lparr>dataFile := Some [0, 1, 109, 0]\<rparr>))) = Some [0, 1, 120, 0] \<and>
   dataFile (fst (add (proto_storage CallFirst toy_marshal toy_unmarshal) ''x''
      (fresh_world\<lparr>dataFile := Some [0, 1, 109, 0]\<rparr>))) = Some [0, 1, 109, 0, 0, 1, 120, 0]"
proof -
  let ?w = "fresh_world\<lparr>dataFile := Some [0, 1, 109, 0]\<rparr>"
  have u: "toy_unmarshal [0, 1, 109, 0] = ([\<lparr>Complete = False, Description = ''m''\<rparr>], None)" by code_simp
  have w: "dataFile ?w = Some [0, 1, 109, 0]" "open_err ?w = None" "close_err ?w = None" "read_end ?w = EOF"
    by (simp_all add: fresh_world_def)
  show ?thesis
    unfolding load_needs_call_first [where unmarshal = toy_unmarshal and marshal = toy_marshal and t = "''x''",
        OF w(1) u w(2-4), THEN conjunct1]
      load_needs_call_first [where unmarshal = toy_unmarshal and marshal = toy_marshal and t = "''x''",
        OF w(1) u w(2-4), THEN conjunct2]
    by code_simp
qed

end
