(* ===== verification/Rosie.thy ===== *)
theory Rosie
  imports Homework
begin

text \<open>
  The gRPC chore service: the server's state and methods (chapter12/server/robot.go), the generated
  service description, handlers and client stubs (homework/v1/homework_grpc.pb.go), and the client
  program (chapter12/client/client.go).

  \<open>[]*Chore\<close> is a list of addresses into a store, because \<open>List\<close> hands out the server's own
  pointers; an address outside the store is a nil pointer.  The mutex is a flag: a method called
  while it is set is \<open>Blocked\<close>.  The gRPC library is a parameter \<open>conn\<close> of the client, the function
  \<open>Invoke\<close> of its connection; \<open>rpc_law\<close> says what the library documents about it.
\<close>

subsection \<open>The server's methods\<close>

type_synonym addr = nat

record store =
  cells :: "addr \<rightharpoonup> Chore"
  next_addr :: addr

record Rosie =
  mu :: bool
  rosie_chores :: "addr list option"

datatype 'a call = Returned "'a result" | Panicked | Blocked

type_synonym sys = "store \<times> Rosie"

definition deref :: "store \<Rightarrow> addr \<Rightarrow> Chore" where
  "deref h p = (case cells h p of Some c \<Rightarrow> c | None \<Rightarrow> \<lparr>Complete = False, Description = []\<rparr>)"

text \<open>\<open>append(s, t...)\<close>, which stays nil when both are.\<close>

definition append_slice :: "'a list option \<Rightarrow> 'a list \<Rightarrow> 'a list option" where
  "append_slice s t = (case s of Some s \<Rightarrow> Some (s @ t) | None \<Rightarrow> if t = [] then None else Some t)"

text \<open>
  \<open>Add\<close> unlocks without \<open>defer\<close>: if reading the field of a nil message panics, the mutex stays
  locked.
\<close>

definition Rosie_Add :: "addr list option \<Rightarrow> sys \<Rightarrow> sys \<times> Response call" where
  "Rosie_Add chores = (\<lambda>(h, r).
     if mu r then ((h, r), Blocked)
     else
       let r = r\<lparr>mu := True\<rparr> in
       (case chores of
          None \<Rightarrow> ((h, r), Panicked)
        | Some cs \<Rightarrow>
            let r = r\<lparr>rosie_chores := append_slice (rosie_chores r) cs\<rparr>; r = r\<lparr>mu := False\<rparr> in
            ((h, r), Returned (Inr \<lparr>Success = True\<rparr>))))"

definition Rosie_Complete :: "CompleteRequest option \<Rightarrow> sys \<Rightarrow> sys \<times> Response call" where
  "Rosie_Complete req = (\<lambda>(h, r).
     if mu r then ((h, r), Blocked)
     else
       (case req of
          None \<Rightarrow> ((h, r), Panicked)
        | Some q \<Rightarrow>
            (case rosie_chores r of
               None \<Rightarrow> ((h, r), Returned (Inl (not_found (sint (ChoreNumber q)))))
             | Some ps \<Rightarrow>
                 if sint (ChoreNumber q) < 1 \<or> sint (ChoreNumber q) > int (length ps)
                 then ((h, r), Returned (Inl (not_found (sint (ChoreNumber q)))))
                 else
                   let p = ps ! nat (sint (ChoreNumber q) - 1) in
                   (case cells h p of
                      None \<Rightarrow> ((h, r), Panicked)
                    | Some c \<Rightarrow>
                        ((h\<lparr>cells := (cells h)(p \<mapsto> c\<lparr>Complete := True\<rparr>)\<rparr>, r),
                         Returned (Inr \<lparr>Success = True\<rparr>))))))"

definition Rosie_List :: "sys \<Rightarrow> sys \<times> addr list call" where
  "Rosie_List = (\<lambda>(h, r).
     if mu r then ((h, r), Blocked)
     else
       let r = (if rosie_chores r = None then r\<lparr>rosie_chores := Some []\<rparr> else r) in
       ((h, r), Returned (Inr (case rosie_chores r of Some ps \<Rightarrow> ps | None \<Rightarrow> []))))"

definition new_Rosie :: Rosie where
  "new_Rosie = \<lparr>mu = False, rosie_chores = None\<rparr>"

text \<open>
  The methods that a server embeds for those it does not implement itself: a status error with the
  code \<open>Unimplemented\<close> and this message.
\<close>

definition unimplemented :: "string \<Rightarrow> go_error" where
  "unimplemented name = ErrText (''method '' @ name @ '' not implemented'')"

definition Unimplemented_Add :: "addr list option \<Rightarrow> sys \<Rightarrow> sys \<times> Response call" where
  "Unimplemented_Add chores s = (s, Returned (Inl (unimplemented ''Add'')))"

definition Unimplemented_Complete :: "CompleteRequest option \<Rightarrow> sys \<Rightarrow> sys \<times> Response call" where
  "Unimplemented_Complete req s = (s, Returned (Inl (unimplemented ''Complete'')))"

definition Unimplemented_List :: "sys \<Rightarrow> sys \<times> addr list call" where
  "Unimplemented_List s = (s, Returned (Inl (unimplemented ''List'')))"

subsection \<open>The generated handlers\<close>

text \<open>
  Decoding a request allocates its messages in the store.  \<open>dec\<close> is the outcome of the library's
  decoder; an interceptor, if there is one, is called with the request, the method's full name and
  the method itself.
\<close>

fun alloc :: "Chore list \<Rightarrow> store \<Rightarrow> store \<times> addr list" where
  "alloc [] h = (h, [])"
| "alloc (c # cs) h =
     (let p = next_addr h;
          h = h\<lparr>cells := (cells h)(p \<mapsto> c), next_addr := p + 1\<rparr>;
          (h, ps) = alloc cs h in (h, p # ps))"

definition Add_FullMethodName :: string where
  "Add_FullMethodName = ''/homework.RobotMaid/Add''"

definition Complete_FullMethodName :: string where
  "Complete_FullMethodName = ''/homework.RobotMaid/Complete''"

definition List_FullMethodName :: string where
  "List_FullMethodName = ''/homework.RobotMaid/List''"

type_synonym ('q, 'a) interceptor =
  "'q \<Rightarrow> string \<Rightarrow> ('q \<Rightarrow> sys \<Rightarrow> sys \<times> 'a call) \<Rightarrow> sys \<Rightarrow> sys \<times> 'a call"

definition Add_Handler ::
  "Chore list result \<Rightarrow> (addr list option, Response) interceptor option \<Rightarrow> sys \<Rightarrow> sys \<times> Response call" where
  "Add_Handler dec ic s =
     (case dec of
        Inl err \<Rightarrow> (s, Returned (Inl err))
      | Inr msg \<Rightarrow>
          (case alloc msg (fst s) of
             (h, inp) \<Rightarrow>
               (case ic of
                  None \<Rightarrow> Rosie_Add (Some inp) (h, snd s)
                | Some ic \<Rightarrow> ic (Some inp) Add_FullMethodName Rosie_Add (h, snd s))))"

definition Complete_Handler ::
  "CompleteRequest result \<Rightarrow> (CompleteRequest option, Response) interceptor option \<Rightarrow> sys \<Rightarrow> sys \<times> Response call" where
  "Complete_Handler dec ic s =
     (case dec of
        Inl err \<Rightarrow> (s, Returned (Inl err))
      | Inr msg \<Rightarrow>
          (case ic of
             None \<Rightarrow> Rosie_Complete (Some msg) s
           | Some ic \<Rightarrow> ic (Some msg) Complete_FullMethodName Rosie_Complete s))"

definition List_Handler ::
  "unit result \<Rightarrow> (unit, addr list) interceptor option \<Rightarrow> sys \<Rightarrow> sys \<times> addr list call" where
  "List_Handler dec ic s =
     (case dec of
        Inl err \<Rightarrow> (s, Returned (Inl err))
      | Inr msg \<Rightarrow>
          (case ic of
             None \<Rightarrow> Rosie_List s
           | Some ic \<Rightarrow> ic msg List_FullMethodName (\<lambda>_. Rosie_List) s))"

text \<open>Messages on the wire, and the service description: the handlers by method name.\<close>

datatype message =
    MChores "Chore list"
  | MCompleteRequest CompleteRequest
  | MEmpty
  | MResponse Response

definition bad_message :: go_error where
  "bad_message = ErrText ''cannot unmarshal''"

fun reply :: "('a \<Rightarrow> store \<Rightarrow> message) \<Rightarrow> sys \<times> 'a call \<Rightarrow> sys \<times> message call" where
  "reply f (s, Returned (Inr x)) = (s, Returned (Inr (f x (fst s))))"
| "reply f (s, Returned (Inl e)) = (s, Returned (Inl e))"
| "reply f (s, Panicked) = (s, Panicked)"
| "reply f (s, Blocked) = (s, Blocked)"

definition ServiceName :: string where
  "ServiceName = ''homework.RobotMaid''"

definition RobotMaid_Methods :: "(string \<times> (message \<Rightarrow> sys \<Rightarrow> sys \<times> message call)) list" where
  "RobotMaid_Methods =
     [(''Add'', \<lambda>m s. reply (\<lambda>x _. MResponse x)
         (Add_Handler (case m of MChores cs \<Rightarrow> Inr cs | _ \<Rightarrow> Inl bad_message) None s)),
      (''Complete'', \<lambda>m s. reply (\<lambda>x _. MResponse x)
         (Complete_Handler (case m of MCompleteRequest q \<Rightarrow> Inr q | _ \<Rightarrow> Inl bad_message) None s)),
      (''List'', \<lambda>m s. reply (\<lambda>ps h. MChores (map (deref h) ps))
         (List_Handler (case m of MEmpty \<Rightarrow> Inr () | _ \<Rightarrow> Inl bad_message) None s))]"

subsection \<open>The client\<close>

text \<open>
  \<open>conn method request\<close> is \<open>Invoke\<close> on the client's connection: it acts on the far side and yields
  the reply or an error.  A reply that does not decode as the expected message is an error.
\<close>

type_synonym 's conn = "string \<Rightarrow> message \<Rightarrow> 's \<Rightarrow> 's \<times> message result"

definition client_Add :: "'s conn \<Rightarrow> Chore list \<Rightarrow> 's \<Rightarrow> 's \<times> Response result" where
  "client_Add cc inp s =
     (case cc Add_FullMethodName (MChores inp) s of
        (s, Inl err) \<Rightarrow> (s, Inl err)
      | (s, Inr (MResponse out)) \<Rightarrow> (s, Inr out)
      | (s, Inr _) \<Rightarrow> (s, Inl bad_message))"

definition client_Complete :: "'s conn \<Rightarrow> CompleteRequest \<Rightarrow> 's \<Rightarrow> 's \<times> Response result" where
  "client_Complete cc inp s =
     (case cc Complete_FullMethodName (MCompleteRequest inp) s of
        (s, Inl err) \<Rightarrow> (s, Inl err)
      | (s, Inr (MResponse out)) \<Rightarrow> (s, Inr out)
      | (s, Inr _) \<Rightarrow> (s, Inl bad_message))"

definition client_List :: "'s conn \<Rightarrow> 's \<Rightarrow> 's \<times> Chore list result" where
  "client_List cc s =
     (case cc List_FullMethodName MEmpty s of
        (s, Inl err) \<Rightarrow> (s, Inl err)
      | (s, Inr (MChores out)) \<Rightarrow> (s, Inr out)
      | (s, Inr _) \<Rightarrow> (s, Inl bad_message))"

definition rpc_list :: "'s conn \<Rightarrow> 's \<Rightarrow> 's \<times> string \<times> go_error option" where
  "rpc_list cc s =
     (case client_List cc s of
        (s, Inl err) \<Rightarrow> (s, [], Some err)
      | (s, Inr chores) \<Rightarrow> (s, list_text ''You have nothing to do!'' chores, None))"

definition rpc_add :: "'s conn \<Rightarrow> string \<Rightarrow> 's \<Rightarrow> 's \<times> go_error option" where
  "rpc_add cc t s =
     (let chores = append_chores [] t in
      if length chores > 0 then
        (case client_Add cc chores s of
           (s, Inl err) \<Rightarrow> (s, Some err)
         | (s, Inr _) \<Rightarrow> (s, None))
      else (s, None))"

definition rpc_complete :: "'s conn \<Rightarrow> string \<Rightarrow> 's \<Rightarrow> 's \<times> go_error option" where
  "rpc_complete cc t s =
     (case atoi t of
        Inl err \<Rightarrow> (s, Some err)
      | Inr i \<Rightarrow>
          (case client_Complete cc \<lparr>ChoreNumber = word_of_int i\<rparr> s of
             (s, Inl err) \<Rightarrow> (s, Some err)
           | (s, Inr _) \<Rightarrow> (s, None)))"

text \<open>\<open>main\<close> after the connection is made: what it prints, and the error given to \<open>log.Fatal\<close>.\<close>

definition rpc_main :: "'s conn \<Rightarrow> string list \<Rightarrow> 's \<Rightarrow> 's \<times> string \<times> go_error option" where
  "rpc_main cc args s =
     (let cmd = to_lower (flag_Arg 0 args);
          (s, err) = (if cmd = ''add'' then rpc_add cc (join '' '' (tl args)) s
                      else if cmd = ''complete'' then rpc_complete cc (flag_Arg 1 args) s
                      else (s, None)) in
      case err of
        Some e \<Rightarrow> (s, [], Some e)
      | None \<Rightarrow> rpc_list cc s)"

subsection \<open>The invariant of the server\<close>

text \<open>
  Between calls the mutex is free and the server's pointers are distinct, allocated and below the
  store's next free address; descriptions are valid UTF-8.
\<close>

definition pointers :: "Rosie \<Rightarrow> addr list" where
  "pointers r = (case rosie_chores r of Some ps \<Rightarrow> ps | None \<Rightarrow> [])"

definition sys_chores :: "sys \<Rightarrow> Chore list" where
  "sys_chores s = map (deref (fst s)) (pointers (snd s))"

definition sys_inv :: "sys \<Rightarrow> bool" where
  "sys_inv s \<longleftrightarrow>
     \<not> mu (snd s) \<and> distinct (pointers (snd s)) \<and>
     (\<forall>p\<in>set (pointers (snd s)). p < next_addr (fst s) \<and> cells (fst s) p \<noteq> None) \<and>
     (\<forall>c\<in>set (sys_chores s). valid_utf8 (Description c))"

lemma alloc_spec:
  assumes "alloc cs h = (h', ps)"
  shows "next_addr h' = next_addr h + length cs \<and> ps = [next_addr h..<next_addr h + length cs] \<and>
    (\<forall>p < next_addr h. cells h' p = cells h p) \<and>
    (\<forall>i < length cs. cells h' (next_addr h + i) = Some (cs ! i))"
  using assms
proof (induction cs arbitrary: h h' ps)
  case Nil
  then show ?case by simp
next
  case (Cons c cs)
  let ?h = "h\<lparr>cells := (cells h)(next_addr h \<mapsto> c), next_addr := next_addr h + 1\<rparr>"
  obtain qs where q: "alloc cs ?h = (h', qs)" "ps = next_addr h # qs"
    using Cons.prems by (auto simp: Let_def split: prod.splits)
  note IH = Cons.IH [OF q(1)]
  have "cells h' (next_addr h + i) = Some ((c # cs) ! i)" if "i < length (c # cs)" for i
    using IH that by (cases i) (auto dest: spec [of _ "next_addr h"])
  moreover have "[next_addr h..<next_addr h + length (c # cs)] =
      next_addr h # [Suc (next_addr h)..<Suc (next_addr h) + length cs]"
    by (simp add: upt_conv_Cons del: upt_Suc)
  moreover have "cells h' p = cells h p" if "p < next_addr h" for p
    using IH that by (simp add: less_Suc_eq)
  ultimately show ?case using IH q(2) by simp
qed

lemma alloc_deref:
  assumes "alloc cs h = (h', ps)"
  shows "map (deref h') ps = cs" "p < next_addr h \<Longrightarrow> deref h' p = deref h p"
proof -
  note a = alloc_spec [OF assms]
  show "map (deref h') ps = cs"
    by (rule nth_equalityI) (simp_all add: a [THEN conjunct1] a deref_def)
  show "p < next_addr h \<Longrightarrow> deref h' p = deref h p" using a by (simp add: deref_def)
qed

lemma pointers_append: "pointers (r\<lparr>rosie_chores := append_slice (rosie_chores r) cs\<rparr>) = pointers r @ cs"
  by (auto simp: pointers_def append_slice_def split: option.splits)

lemma pointers_mu [simp]: "pointers (r\<lparr>mu := b\<rparr>) = pointers r"
  by (simp add: pointers_def)

lemma Add_Handler_spec:
  assumes "sys_inv s" and "\<forall>c\<in>set cs. valid_utf8 (Description c)"
  obtains s' where "Add_Handler (Inr cs) None s = (s', Returned (Inr \<lparr>Success = True\<rparr>))"
    "sys_inv s'" "sys_chores s' = sys_chores s @ cs"
proof -
  obtain h r where s: "s = (h, r)" by (cases s)
  obtain h' ps where a: "alloc cs h = (h', ps)" by (metis prod.exhaust)
  note spec = alloc_spec [OF a] and deref = alloc_deref [OF a]
  let ?r = "r\<lparr>mu := True, rosie_chores := append_slice (rosie_chores r) ps, mu := False\<rparr>"
  have ptrs: "pointers ?r = pointers r @ ps"
    by (simp add: pointers_append)
  have inv: "\<not> mu r" "distinct (pointers r)" "\<forall>p\<in>set (pointers r). p < next_addr h \<and> cells h p \<noteq> None"
    "\<forall>c\<in>set (sys_chores (h, r)). valid_utf8 (Description c)"
    using assms(1) s by (auto simp: sys_inv_def)
  have chores: "sys_chores (h', ?r) = sys_chores (h, r) @ cs"
    using deref inv(3) by (simp add: sys_chores_def pointers_append)
  have "distinct (pointers r @ ps)" using inv spec by auto
  moreover have "\<forall>p\<in>set (pointers r @ ps). p < next_addr h' \<and> cells h' p \<noteq> None"
  proof
    fix p assume "p \<in> set (pointers r @ ps)"
    then consider "p \<in> set (pointers r)" | i where "i < length cs" "p = next_addr h + i"
      using spec by (auto simp: le_iff_add)
    then show "p < next_addr h' \<and> cells h' p \<noteq> None" using spec inv(3) by cases auto
  qed
  moreover have "\<forall>c\<in>set (sys_chores (h', ?r)). valid_utf8 (Description c)"
    unfolding chores using inv(4) assms(2) by auto
  ultimately have "sys_inv (h', ?r)" unfolding sys_inv_def ptrs fst_conv snd_conv by simp
  moreover have "Add_Handler (Inr cs) None s = ((h', ?r), Returned (Inr \<lparr>Success = True\<rparr>))"
    using inv(1) by (simp add: Add_Handler_def Rosie_Add_def s a Let_def)
  ultimately show ?thesis using that chores s by blast
qed

lemma sys_chores_update:
  assumes "distinct (pointers r)" "k < length (pointers r)" "cells h (pointers r ! k) = Some c"
  shows "sys_chores (h\<lparr>cells := (cells h)(pointers r ! k \<mapsto> c\<lparr>Complete := True\<rparr>)\<rparr>, r) = mark k (sys_chores (h, r))"
  by (rule nth_equalityI)
    (use assms in \<open>auto simp: sys_chores_def nth_mark deref_def nth_eq_iff_index_eq\<close>)

lemma Complete_Handler_spec:
  fixes q :: CompleteRequest
  assumes "sys_inv s"
  defines "n \<equiv> sint (ChoreNumber q)"
  shows "if 1 \<le> n \<and> n \<le> int (length (sys_chores s))
    then \<exists>s'. Complete_Handler (Inr q) None s = (s', Returned (Inr \<lparr>Success = True\<rparr>)) \<and>
      sys_inv s' \<and> sys_chores s' = mark (nat (n - 1)) (sys_chores s)
    else Complete_Handler (Inr q) None s = (s, Returned (Inl (not_found n)))"
proof -
  obtain h r where s: "s = (h, r)" by (cases s)
  have inv: "\<not> mu r" "distinct (pointers r)" "\<forall>p\<in>set (pointers r). p < next_addr h \<and> cells h p \<noteq> None"
    "\<forall>c\<in>set (sys_chores (h, r)). valid_utf8 (Description c)"
    using assms(1) s by (auto simp: sys_inv_def)
  have len: "length (sys_chores s) = length (pointers r)" by (simp add: sys_chores_def s)
  show ?thesis
  proof (cases "1 \<le> n \<and> n \<le> int (length (pointers r))")
    case True
    then have k: "nat (n - 1) < length (pointers r)" by linarith
    then obtain ps where ps: "rosie_chores r = Some ps" "pointers r = ps"
      by (cases "rosie_chores r") (auto simp: pointers_def)
    let ?p = "pointers r ! nat (n - 1)"
    obtain c where c: "cells h ?p = Some c" using inv(3) k nth_mem by blast
    let ?h = "h\<lparr>cells := (cells h)(?p \<mapsto> c\<lparr>Complete := True\<rparr>)\<rparr>"
    note upd = sys_chores_update [OF inv(2) k c]
    have "sys_inv (?h, r)"
      using inv mark_valid [OF inv(4)] unfolding sys_inv_def fst_conv snd_conv upd by auto
    moreover have "Complete_Handler (Inr q) None s = ((?h, r), Returned (Inr \<lparr>Success = True\<rparr>))"
      using inv(1) ps True c by (simp add: Complete_Handler_def Rosie_Complete_def s Let_def n_def)
    ultimately show ?thesis using True len upd s by auto
  next
    case False
    then have "Complete_Handler (Inr q) None s = (s, Returned (Inl (not_found n)))"
      using inv(1) by (auto simp: Complete_Handler_def Rosie_Complete_def s n_def pointers_def split: option.splits)
    with False len show ?thesis by simp
  qed
qed

lemma List_Handler_spec:
  assumes "sys_inv s"
  obtains s' where "List_Handler (Inr ()) None s = (s', Returned (Inr (pointers (snd s))))"
    "sys_inv s'" "sys_chores s' = sys_chores s" "fst s' = fst s"
proof -
  obtain h r where s: "s = (h, r)" by (cases s)
  let ?r = "if rosie_chores r = None then r\<lparr>rosie_chores := Some []\<rparr> else r"
  have "pointers ?r = pointers r" "mu ?r = mu r" by (auto simp: pointers_def)
  then have "sys_inv (h, ?r)" "sys_chores (h, ?r) = sys_chores s"
    using assms s by (auto simp: sys_inv_def sys_chores_def)
  moreover have "List_Handler (Inr ()) None s = ((h, ?r), Returned (Inr (pointers (snd s))))"
    using assms s by (auto simp: List_Handler_def Rosie_List_def sys_inv_def pointers_def Let_def split: option.splits)
  ultimately show ?thesis using that s by (metis fst_conv)
qed

subsection \<open>The client and the server together\<close>

fun message_ok :: "message \<Rightarrow> bool" where
  "message_ok (MChores cs) \<longleftrightarrow> (\<forall>c\<in>set cs. valid_utf8 (Description c))"
| "message_ok _ \<longleftrightarrow> True"

definition full_name :: "string \<Rightarrow> string" where
  "full_name m = ''/'' @ ServiceName @ ''/'' @ m"

text \<open>
  What the gRPC library documents about a connection to a server on which the service is
  registered: calling \<open>/service/method\<close> with an encodable message runs the handler registered for
  the method and delivers its reply, or some error when it returned an error.
\<close>

definition rpc_law :: "sys conn \<Rightarrow> bool" where
  "rpc_law cc \<longleftrightarrow>
     (\<forall>(m, hdl) \<in> set RobotMaid_Methods. \<forall>msg s. message_ok msg \<longrightarrow>
        (case hdl msg s of
           (s', Returned (Inr out)) \<Rightarrow> message_ok out \<longrightarrow> cc (full_name m) msg s = (s', Inr out)
         | (s', Returned (Inl e)) \<Rightarrow> \<exists>e'. cc (full_name m) msg s = (s', Inl e')
         | _ \<Rightarrow> True))"

lemma full_names:
  "full_name ''Add'' = Add_FullMethodName" "full_name ''Complete'' = Complete_FullMethodName"
  "full_name ''List'' = List_FullMethodName"
  by (simp_all add: full_name_def ServiceName_def Add_FullMethodName_def Complete_FullMethodName_def
      List_FullMethodName_def)

lemma rpc_lawD:
  assumes "rpc_law cc" "(m, hdl) \<in> set RobotMaid_Methods" "message_ok msg"
  shows "hdl msg s = (s', Returned (Inr out)) \<Longrightarrow> message_ok out \<Longrightarrow> cc (full_name m) msg s = (s', Inr out)"
    and "hdl msg s = (s', Returned (Inl e)) \<Longrightarrow> \<exists>e'. cc (full_name m) msg s = (s', Inl e')"
proof -
  have "case hdl msg s of
           (s', Returned (Inr out)) \<Rightarrow> message_ok out \<longrightarrow> cc (full_name m) msg s = (s', Inr out)
         | (s', Returned (Inl e)) \<Rightarrow> \<exists>e'. cc (full_name m) msg s = (s', Inl e')
         | _ \<Rightarrow> True"
    using bspec [OF assms(1) [unfolded rpc_law_def] assms(2)] assms(3)
    by (simp only: prod.case)
  then show "hdl msg s = (s', Returned (Inr out)) \<Longrightarrow> message_ok out \<Longrightarrow> cc (full_name m) msg s = (s', Inr out)"
    and "hdl msg s = (s', Returned (Inl e)) \<Longrightarrow> \<exists>e'. cc (full_name m) msg s = (s', Inl e')"
    by simp_all
qed

lemma methods:
  "(''Add'', \<lambda>m s. reply (\<lambda>x _. MResponse x)
     (Add_Handler (case m of MChores cs \<Rightarrow> Inr cs | _ \<Rightarrow> Inl bad_message) None s)) \<in> set RobotMaid_Methods"
  "(''Complete'', \<lambda>m s. reply (\<lambda>x _. MResponse x)
     (Complete_Handler (case m of MCompleteRequest q \<Rightarrow> Inr q | _ \<Rightarrow> Inl bad_message) None s)) \<in> set RobotMaid_Methods"
  "(''List'', \<lambda>m s. reply (\<lambda>ps h. MChores (map (deref h) ps))
     (List_Handler (case m of MEmpty \<Rightarrow> Inr () | _ \<Rightarrow> Inl bad_message) None s)) \<in> set RobotMaid_Methods"
  by (simp_all add: RobotMaid_Methods_def)

lemma client_Add_spec:
  assumes "rpc_law cc" "sys_inv s" "\<forall>c\<in>set cs. valid_utf8 (Description c)"
  obtains s' where "client_Add cc cs s = (s', Inr \<lparr>Success = True\<rparr>)" "sys_inv s'"
    "sys_chores s' = sys_chores s @ cs"
proof -
  obtain s' where s': "Add_Handler (Inr cs) None s = (s', Returned (Inr \<lparr>Success = True\<rparr>))"
    "sys_inv s'" "sys_chores s' = sys_chores s @ cs"
    using Add_Handler_spec [OF assms(2,3)] .
  have "cc Add_FullMethodName (MChores cs) s = (s', Inr (MResponse \<lparr>Success = True\<rparr>))"
    using rpc_lawD(1) [OF assms(1) methods(1), of "MChores cs" s s'] assms(3) s'(1)
    by (simp add: full_names)
  then show ?thesis using that s' by (simp add: client_Add_def)
qed

lemma client_Complete_spec:
  fixes q :: CompleteRequest
  assumes "rpc_law cc" "sys_inv s"
  defines "n \<equiv> sint (ChoreNumber q)"
  shows "if 1 \<le> n \<and> n \<le> int (length (sys_chores s))
    then \<exists>s'. client_Complete cc q s = (s', Inr \<lparr>Success = True\<rparr>) \<and> sys_inv s' \<and>
      sys_chores s' = mark (nat (n - 1)) (sys_chores s)
    else \<exists>e. client_Complete cc q s = (s, Inl e)"
proof -
  note law = rpc_lawD [OF assms(1) methods(2), of "MCompleteRequest q" s, unfolded full_names]
  note spec = Complete_Handler_spec [OF assms(2), of q, folded n_def]
  show ?thesis
  proof (cases "1 \<le> n \<and> n \<le> int (length (sys_chores s))")
    case True
    then obtain s' where s': "Complete_Handler (Inr q) None s = (s', Returned (Inr \<lparr>Success = True\<rparr>))"
      "sys_inv s'" "sys_chores s' = mark (nat (n - 1)) (sys_chores s)"
      using spec by auto
    then have "client_Complete cc q s = (s', Inr \<lparr>Success = True\<rparr>)"
      using law(1) [of s'] by (simp add: client_Complete_def)
    with True s' show ?thesis by simp
  next
    case False
    then have "Complete_Handler (Inr q) None s = (s, Returned (Inl (not_found n)))"
      using spec by (simp only: if_False)
    then obtain e where "client_Complete cc q s = (s, Inl e)"
      using law(2) [of s] by (auto simp: client_Complete_def)
    with False show ?thesis by auto
  qed
qed

lemma client_List_spec:
  assumes "rpc_law cc" "sys_inv s"
  obtains s' where "client_List cc s = (s', Inr (sys_chores s))" "sys_inv s'"
    "sys_chores s' = sys_chores s"
proof -
  obtain s' where s': "List_Handler (Inr ()) None s = (s', Returned (Inr (pointers (snd s))))"
    "sys_inv s'" "sys_chores s' = sys_chores s" "fst s' = fst s"
    using List_Handler_spec [OF assms(2)] .
  have "\<forall>c\<in>set (sys_chores s). valid_utf8 (Description c)" using assms(2) by (simp add: sys_inv_def)
  then have "message_ok (MChores (map (deref (fst s')) (pointers (snd s))))"
    using s'(4) by (simp add: sys_chores_def)
  then have "cc List_FullMethodName MEmpty s = (s', Inr (MChores (map (deref (fst s')) (pointers (snd s)))))"
    using rpc_lawD(1) [OF assms(1) methods(3), of MEmpty s s'] s'(1) by (simp add: full_names)
  then show ?thesis using that s' by (simp add: client_List_def sys_chores_def)
qed

text \<open>The connection that calls the registered handlers directly.\<close>

definition direct_conn :: "sys conn" where
  "direct_conn name msg s =
     (case map_of (map (\<lambda>(m, hdl). (full_name m, hdl)) RobotMaid_Methods) name of
        None \<Rightarrow> (s, Inl (ErrText ''unknown method''))
      | Some hdl \<Rightarrow>
          (case hdl msg s of
             (s, Returned r) \<Rightarrow> (s, r)
           | (s, _) \<Rightarrow> (s, Inl (ErrText ''unavailable''))))"

lemma direct_conn_law: "rpc_law direct_conn"
proof -
  have "distinct (map (full_name \<circ> fst) RobotMaid_Methods)"
    by (simp add: RobotMaid_Methods_def full_name_def)
  then have "map_of (map (\<lambda>(m, hdl). (full_name m, hdl)) RobotMaid_Methods) (full_name m) = Some hdl"
    if "(m, hdl) \<in> set RobotMaid_Methods" for m hdl
    using that by (force simp: comp_def split_def intro: map_of_is_SomeI)
  then show ?thesis
    unfolding rpc_law_def direct_conn_def
    by (auto split: prod.splits call.splits sum.splits)
qed

text \<open>The number the client sends: \<open>int32(i)\<close> keeps the low 32 bits of what \<open>Atoi\<close> returned.\<close>

definition rpc_num :: "string \<Rightarrow> int option" where
  "rpc_num t = (case atoi t of Inl _ \<Rightarrow> None | Inr i \<Rightarrow> Some (sint (word_of_int i :: i32)))"

fun rpc_exec :: "command \<Rightarrow> sys conn \<times> sys \<Rightarrow> (sys conn \<times> sys) \<times> go_error option" where
  "rpc_exec (AddCmd t) (cc, s) = (case rpc_add cc t s of (s, e) \<Rightarrow> ((cc, s), e))"
| "rpc_exec (CompleteCmd t) (cc, s) = (case rpc_complete cc t s of (s, e) \<Rightarrow> ((cc, s), e))"

definition rpc_inv :: "sys conn \<times> sys \<Rightarrow> bool" where
  "rpc_inv cs \<longleftrightarrow> rpc_law (fst cs) \<and> sys_inv (snd cs)"

definition rpc_chores :: "sys conn \<times> sys \<Rightarrow> Chore list" where
  "rpc_chores cs = sys_chores (snd cs)"

lemma rpc_exec_spec:
  assumes "rpc_law cc" "sys_inv s" and "text_ok c"
  shows "\<exists>s' e. rpc_exec c (cc, s) = ((cc, s'), e) \<and> sys_inv s' \<and>
    sys_chores s' = spec_step rpc_num c (sys_chores s) \<and> (e \<noteq> None) = spec_fails rpc_num c (sys_chores s)"
proof (cases c)
  case (AddCmd t)
  then have ok: "\<forall>c\<in>set (new_chores t). valid_utf8 (Description c)" using assms(3) by simp
  obtain s' where "client_Add cc (new_chores t) s = (s', Inr \<lparr>Success = True\<rparr>)" "sys_inv s'"
    "sys_chores s' = sys_chores s @ new_chores t"
    using client_Add_spec [OF assms(1,2) ok] .
  then show ?thesis using AddCmd assms(2)
    by (cases "new_chores t = []"; intro exI [of _ "if new_chores t = [] then s else s'"])
      (auto simp: rpc_add_def append_chores_new)
next
  case (CompleteCmd t)
  show ?thesis
  proof (cases "atoi t")
    case (Inl e)
    then show ?thesis using CompleteCmd assms by (simp add: rpc_complete_def rpc_num_def)
  next
    case (Inr i)
    let ?n = "sint (word_of_int i :: i32)"
    note spec = client_Complete_spec [OF assms(1,2), of "\<lparr>ChoreNumber = word_of_int i\<rparr>"]
    show ?thesis
    proof (cases "1 \<le> ?n \<and> ?n \<le> int (length (sys_chores s))")
      case True
      then show ?thesis using CompleteCmd Inr spec
        by (auto simp: rpc_complete_def rpc_num_def)
    next
      case False
      then obtain e where "client_Complete cc \<lparr>ChoreNumber = word_of_int i\<rparr> s = (s, Inl e)"
        using spec by (auto split: if_splits)
      with False show ?thesis using CompleteCmd Inr assms(2)
        by (auto simp: rpc_complete_def rpc_num_def)
    qed
  qed
qed

interpretation rpc: chore_store rpc_inv rpc_chores rpc_num rpc_exec
proof unfold_locales
  fix s c
  assume "rpc_inv s" "text_ok c"
  then obtain s' e where "rpc_exec c s = ((fst s, s'), e)" "sys_inv s'"
    "sys_chores s' = spec_step rpc_num c (rpc_chores s)" "(e \<noteq> None) = spec_fails rpc_num c (rpc_chores s)"
    using rpc_exec_spec [of "fst s" "snd s" c] by (auto simp: rpc_inv_def rpc_chores_def)
  with \<open>rpc_inv s\<close> show "rpc_inv (fst (rpc_exec c s))"
    "rpc_chores (fst (rpc_exec c s)) = spec_step rpc_num c (rpc_chores s)"
    "(snd (rpc_exec c s) \<noteq> None) = spec_fails rpc_num c (rpc_chores s)"
    by (simp_all add: rpc_inv_def rpc_chores_def)
qed

subsection \<open>What the service does\<close>

definition fresh_sys :: sys where
  "fresh_sys = (\<lparr>cells = Map.empty, next_addr = 0\<rparr>, new_Rosie)"

lemma fresh_rpc_inv: "rpc_inv (direct_conn, fresh_sys)" "rpc_chores (direct_conn, fresh_sys) = []"
  by (simp_all add: rpc_inv_def rpc_chores_def direct_conn_law sys_inv_def sys_chores_def fresh_sys_def
      new_Rosie_def pointers_def)

text \<open>
  C7: The chores on the server after any sequence of client commands, failing ones included, are the
  list that the specification computes from the numbers as sent; no chore is dropped, renamed or
  reordered, and a completed chore stays completed.
\<close>

theorem service_refines:
  assumes "rpc_law cc" and "sys_inv s" and "\<forall>c\<in>set cmds. text_ok c"
  shows "let before = sys_chores s; after = rpc_chores (run_commands rpc_exec cmds (cc, s)) in
    after = spec_run rpc_num cmds before \<and>
    prefix (map Description before) (map Description after) \<and>
    (\<forall>i < length before. Complete (before ! i) \<longrightarrow> i < length after \<and> Complete (after ! i))"
proof -
  have inv: "rpc_inv (cc, s)" using assms(1,2) by (simp add: rpc_inv_def)
  have "rpc_chores (cc, s) = sys_chores s" by (simp add: rpc_chores_def)
  then show ?thesis
    unfolding Let_def
    using rpc.run_refine [OF inv assms(3)] rpc.run_keep [OF inv assms(3)] rpc.run_done [OF inv assms(3)]
    by simp
qed

lemma sample_commands:
  "new_chores ''a,b'' = [\<lparr>Complete = False, Description = ''a''\<rparr>, \<lparr>Complete = False, Description = ''b''\<rparr>]"
  "atoi ''2'' = Inr 2" "atoi ''9'' = Inr 9" "atoi ''4294967297'' = Inr 4294967297"
  "text_ok (AddCmd ''a,b'')"
proof -
  show n: "new_chores ''a,b'' =
    [\<lparr>Complete = False, Description = ''a''\<rparr>, \<lparr>Complete = False, Description = ''b''\<rparr>]" by code_simp
  show "atoi ''2'' = Inr 2" "atoi ''9'' = Inr 9" "atoi ''4294967297'' = Inr 4294967297"
    by (simp_all add: atoi_def Let_def)
  show "text_ok (AddCmd ''a,b'')" by (simp add: n valid_utf8_ascii)
qed

theorem service_refines_witness:
  "rpc_chores (run_commands rpc_exec [AddCmd ''a,b'', CompleteCmd ''2'', CompleteCmd ''9'']
     (direct_conn, fresh_sys)) =
   [\<lparr>Complete = False, Description = ''a''\<rparr>, \<lparr>Complete = True, Description = ''b''\<rparr>]"
proof -
  let ?cmds = "[AddCmd ''a,b'', CompleteCmd ''2'', CompleteCmd ''9'']"
  have inv: "rpc_law direct_conn" "sys_inv fresh_sys" "sys_chores fresh_sys = []"
    using fresh_rpc_inv by (simp_all add: rpc_inv_def rpc_chores_def)
  have "\<forall>c\<in>set ?cmds. text_ok c" using sample_commands(5) by simp
  from service_refines [OF inv(1,2) this]
  have "rpc_chores (run_commands rpc_exec ?cmds (direct_conn, fresh_sys)) = spec_run rpc_num ?cmds []"
    unfolding Let_def inv(3) by blast
  also have "\<dots> = [\<lparr>Complete = False, Description = ''a''\<rparr>, \<lparr>Complete = True, Description = ''b''\<rparr>]"
    by (simp add: sample_commands rpc_num_def mark_def)
  finally show ?thesis .
qed

text \<open>
  C17: As long as the numbers the user types fit in 32 bits, the client with the server and the
  command-line program are interchangeable: started with the same chores, the same commands leave
  the same chores, so both print the same lines.
\<close>

theorem cli_and_service_agree:
  assumes "cli_inv (st, w)" and "rpc_law cc" and "sys_inv s" and "cli_chores (st, w) = sys_chores s"
    and "\<forall>c\<in>set cmds. text_ok c"
    and "\<And>t i. CompleteCmd t \<in> set cmds \<Longrightarrow> atoi t = Inr i \<Longrightarrow> - (2 ^ 31) \<le> i \<and> i < 2 ^ 31"
  shows "cli_chores (run_commands cli_exec cmds (st, w)) = rpc_chores (run_commands rpc_exec cmds (cc, s))"
proof -
  have inv: "rpc_inv (cc, s)" using assms(2,3) by (simp add: rpc_inv_def)
  have "rpc_num t = atoi_num t" if "CompleteCmd t \<in> set cmds" for t
    using assms(6) [OF that]
    by (auto simp: rpc_num_def atoi_num_def sint_sbintrunc' signed_take_bit_int_eq_self split: sum.splits)
  then have "spec_run rpc_num cmds (sys_chores s) = spec_run atoi_num cmds (sys_chores s)"
    by (rule spec_run_num_cong)
  then show ?thesis
    using cli.run_refine [OF assms(1,5)] rpc.run_refine [OF inv assms(5)] assms(4)
    by (simp add: rpc_chores_def)
qed

theorem cli_and_service_agree_witness:
  "cli_chores (run_commands cli_exec [AddCmd ''a,b'', CompleteCmd ''2''] (toy_storage, fresh_world)) =
   rpc_chores (run_commands rpc_exec [AddCmd ''a,b'', CompleteCmd ''2''] (direct_conn, fresh_sys))"
proof (rule cli_and_service_agree [OF fresh_inv])
  show "rpc_law direct_conn" "sys_inv fresh_sys" "cli_chores (toy_storage, fresh_world) = sys_chores fresh_sys"
    using fresh_rpc_inv by (simp_all add: rpc_inv_def rpc_chores_def fresh_world_def)
  show "\<forall>c\<in>set [AddCmd ''a,b'', CompleteCmd ''2'']. text_ok c" using sample_commands(5) by simp
  show "- (2 ^ 31) \<le> i \<and> i < 2 ^ 31"
    if "CompleteCmd t \<in> set [AddCmd ''a,b'', CompleteCmd ''2'']" "atoi t = Inr i" for t i
    using that sample_commands(2) by auto
qed

lemma rpc_main_spec:
  assumes "rpc_law cc" and "sys_inv s" and "\<And>c. command_of args = Some c \<Longrightarrow> text_ok c"
  shows "sys_inv (fst (rpc_main cc args s)) \<and>
    sys_chores (fst (rpc_main cc args s)) =
      (case command_of args of None \<Rightarrow> sys_chores s | Some c \<Rightarrow> spec_step rpc_num c (sys_chores s)) \<and>
    (case command_of args of
      None \<Rightarrow> snd (rpc_main cc args s) = (list_text ''You have nothing to do!'' (sys_chores s), None)
    | Some c \<Rightarrow>
        sys_chores (fst (rpc_main cc args s)) = spec_step rpc_num c (sys_chores s) \<and>
        (if spec_fails rpc_num c (sys_chores s) then \<exists>e. snd (rpc_main cc args s) = ([], Some e)
         else snd (rpc_main cc args s) =
           (list_text ''You have nothing to do!'' (spec_step rpc_num c (sys_chores s)), None)))"
proof -
  have lists: "\<exists>s'. rpc_list cc s = (s', list_text ''You have nothing to do!'' (sys_chores s), None) \<and>
      sys_chores s' = sys_chores s \<and> sys_inv s'" if "sys_inv s" for s
  proof -
    obtain s' where "client_List cc s = (s', Inr (sys_chores s))" "sys_inv s'" "sys_chores s' = sys_chores s"
      using client_List_spec [OF assms(1) \<open>sys_inv s\<close>] .
    then show ?thesis by (simp add: rpc_list_def)
  qed
  have main: "rpc_main cc args s =
      (case command_of args of
         None \<Rightarrow> rpc_list cc s
       | Some c \<Rightarrow> (case snd (rpc_exec c (cc, s)) of
           Some e \<Rightarrow> (snd (fst (rpc_exec c (cc, s))), [], Some e)
         | None \<Rightarrow> rpc_list cc (snd (fst (rpc_exec c (cc, s))))))"
    by (auto simp: rpc_main_def Let_def split: prod.splits option.splits)
  show ?thesis
  proof (cases "command_of args")
    case None
    then show ?thesis using main lists [OF assms(2)] by auto
  next
    case (Some c)
    then obtain s' e where e: "rpc_exec c (cc, s) = ((cc, s'), e)" "sys_inv s'"
      "sys_chores s' = spec_step rpc_num c (sys_chores s)" "(e \<noteq> None) = spec_fails rpc_num c (sys_chores s)"
      using rpc_exec_spec [OF assms(1,2) assms(3) [OF Some]] by blast
    then show ?thesis using Some main lists [OF e(2)] by (cases e) auto
  qed
qed

text \<open>
  One run of the client: \<open>add\<close> and \<open>complete\<close> act on the server as the specification says and
  then the server's chores are printed; when the server refuses a number, or the text is not a
  number, the server's chores stay as they are and nothing is printed.
\<close>

theorem client_runs_command:
  assumes "rpc_law cc" and "sys_inv s" and "\<And>c. command_of args = Some c \<Longrightarrow> text_ok c"
  shows "case command_of args of
      None \<Rightarrow> snd (rpc_main cc args s) = (list_text ''You have nothing to do!'' (sys_chores s), None)
    | Some c \<Rightarrow>
        sys_chores (fst (rpc_main cc args s)) = spec_step rpc_num c (sys_chores s) \<and>
        (if spec_fails rpc_num c (sys_chores s) then \<exists>e. snd (rpc_main cc args s) = ([], Some e)
         else snd (rpc_main cc args s) =
           (list_text ''You have nothing to do!'' (spec_step rpc_num c (sys_chores s)), None))"
  using rpc_main_spec [OF assms] by blast

theorem client_runs_command_witness:
  "snd (rpc_main direct_conn [''add'', ''a,b''] fresh_sys) =
     (list_text ''You have nothing to do!''
       [\<lparr>Complete = False, Description = ''a''\<rparr>, \<lparr>Complete = False, Description = ''b''\<rparr>], None)"
proof -
  have inv: "rpc_law direct_conn" "sys_inv fresh_sys" "sys_chores fresh_sys = []"
    using fresh_rpc_inv by (simp_all add: rpc_inv_def rpc_chores_def)
  have c: "command_of [''add'', ''a,b''] = Some (AddCmd ''a,b'')" by code_simp
  show ?thesis
    using client_runs_command [OF inv(1,2), of "[''add'', ''a,b'']"] c sample_commands(1,5)
    by (simp add: inv(3))
qed

lemma rpc_complete_spec:
  assumes "rpc_law cc" "sys_inv s" "atoi t = Inr i" "sint (word_of_int i :: i32) = n"
    and "1 \<le> n" "n \<le> int (length (sys_chores s))"
  shows "snd (rpc_complete cc t s) = None \<and>
    sys_chores (fst (rpc_complete cc t s)) = mark (nat (n - 1)) (sys_chores s)"
  using client_Complete_spec [OF assms(1,2), of "\<lparr>ChoreNumber = word_of_int i\<rparr>"] assms(3-)
  by (auto simp: rpc_complete_def)

text \<open>
  C36: The client sends \<open>int32(i)\<close>: a number that is too large for 32 bits is not refused but
  completes the chore whose number is its low 32 bits.
\<close>

theorem client_truncates_number:
  assumes "rpc_law cc" and "sys_inv s"
    and "j < length (sys_chores s)" and "j + 1 < 2 ^ 31" and "k * 2 ^ 32 + (j + 1) < 2 ^ 63"
  shows "snd (rpc_complete cc (show_nat (k * 2 ^ 32 + (j + 1))) s) = None \<and>
    sys_chores (fst (rpc_complete cc (show_nat (k * 2 ^ 32 + (j + 1))) s)) = mark j (sys_chores s)"
proof -
  have a: "atoi (show_nat (k * 2 ^ 32 + (j + 1))) = Inr (int (k * 2 ^ 32 + (j + 1)))"
    using assms(5) by (intro atoi_show_nat) simp
  have "(word_of_int (int (k * 2 ^ 32 + (j + 1))) :: i32) = word_of_int (int (j + 1))"
  proof -
    have "int (k * 2 ^ 32 + (j + 1)) = int (j + 1) + int k * 2 ^ 32" by simp
    then have "int (k * 2 ^ 32 + (j + 1)) mod 2 ^ 32 = int (j + 1) mod 2 ^ 32"
      by (simp only: mod_mult_self1)
    then show ?thesis by (subst word_of_int_eq_iff) (simp add: take_bit_eq_mod)
  qed
  then have "sint (word_of_int (int (k * 2 ^ 32 + (j + 1))) :: i32) = sint (word_of_int (int (j + 1)) :: i32)"
    by (simp only:)
  also have "\<dots> = int (j + 1)"
    using assms(4) by (subst sint_sbintrunc') (simp add: signed_take_bit_int_eq_self)
  finally show ?thesis
    using rpc_complete_spec [OF assms(1,2) a] assms(3) by simp
qed

theorem client_truncates_number_witness:
  "\<exists>s. sys_chores s = [\<lparr>Complete = False, Description = ''a''\<rparr>, \<lparr>Complete = False, Description = ''b''\<rparr>] \<and>
    show_nat 4294967297 = ''4294967297'' \<and>
    snd (rpc_complete direct_conn ''4294967297'' s) = None \<and>
    sys_chores (fst (rpc_complete direct_conn ''4294967297'' s)) =
      [\<lparr>Complete = True, Description = ''a''\<rparr>, \<lparr>Complete = False, Description = ''b''\<rparr>]"
proof -
  have "rpc_law direct_conn" "sys_inv fresh_sys" "sys_chores fresh_sys = []"
    using fresh_rpc_inv by (simp_all add: rpc_inv_def rpc_chores_def)
  then obtain s e where s: "sys_inv s"
    "sys_chores s = [\<lparr>Complete = False, Description = ''a''\<rparr>, \<lparr>Complete = False, Description = ''b''\<rparr>]"
    using rpc_exec_spec [of direct_conn fresh_sys "AddCmd ''a,b''"] sample_commands(1,5) by auto
  have n: "show_nat (1 * 2 ^ 32 + (0 + 1)) = ''4294967297''"
    by (simp add: show_nat.simps digit_char_def) code_simp
  show ?thesis
    using client_truncates_number [OF direct_conn_law s(1), of 0 1] n
    by (intro exI [of _ s]) (simp add: s(2) mark_def)
qed

text \<open>
  C35: A reply of \<open>List\<close> is not a snapshot: it holds the server's own pointers, so a completion that
  happens after \<open>List\<close> has returned and released the mutex shows in the reply when it is encoded
  later; nothing else in the reply changes.
\<close>

theorem list_reply_aliases:
  assumes "sys_inv s" and "List_Handler (Inr ()) None s = (s1, Returned (Inr ps))"
    and "Complete_Handler (Inr q) None s1 = (s2, Returned (Inr x))"
  shows "map (deref (fst s2)) ps = mark (nat (sint (ChoreNumber q) - 1)) (map (deref (fst s1)) ps)"
proof -
  have s1: "sys_inv s1" "pointers (snd s1) = ps"
    using assms(1,2) by (auto simp: List_Handler_def Rosie_List_def sys_inv_def pointers_def sys_chores_def
        split: prod.splits option.splits if_splits)
  moreover have "pointers (snd s2) = pointers (snd s1)"
    using assms(3) by (auto simp: Complete_Handler_def Rosie_Complete_def pointers_def Let_def
        split: prod.splits option.splits if_splits)
  ultimately show ?thesis
    using Complete_Handler_spec [OF s1(1), of q] assms(3)
    by (auto simp: sys_chores_def split: if_splits)
qed

theorem list_reply_aliases_witness:
  "let s = (\<lparr>cells = [0 \<mapsto> \<lparr>Complete = False, Description = ''a''\<rparr>], next_addr = 1\<rparr>,
           \<lparr>mu = False, rosie_chores = Some [0]\<rparr>);
       s2 = fst (Complete_Handler (Inr \<lparr>ChoreNumber = 1\<rparr>) None s) in
   List_Handler (Inr ()) None s = (s, Returned (Inr [0])) \<and>
   map (deref (fst s2)) [0] = [\<lparr>Complete = True, Description = ''a''\<rparr>]"
proof -
  let ?s = "(\<lparr>cells = [0 \<mapsto> \<lparr>Complete = False, Description = ''a''\<rparr>], next_addr = 1\<rparr>,
           \<lparr>mu = False, rosie_chores = Some [0]\<rparr>) :: sys"
  let ?r = "Complete_Handler (Inr \<lparr>ChoreNumber = 1\<rparr>) None ?s"
  have inv: "sys_inv ?s" by (simp add: sys_inv_def pointers_def sys_chores_def deref_def valid_utf8_ascii)
  have l: "List_Handler (Inr ()) None ?s = (?s, Returned (Inr [0]))"
    by (simp add: List_Handler_def Rosie_List_def Let_def)
  have c: "?r = (fst ?r, Returned (Inr \<lparr>Success = True\<rparr>))"
    by (simp add: Complete_Handler_def Rosie_Complete_def)
  have d: "map (deref (fst ?s)) [0] = [\<lparr>Complete = False, Description = ''a''\<rparr>]" by (simp add: deref_def)
  have "map (deref (fst (fst ?r))) [0] = [\<lparr>Complete = True, Description = ''a''\<rparr>]"
    using list_reply_aliases [OF inv l c] unfolding d by (simp add: mark_def)
  then show ?thesis unfolding Let_def by (rule conjI [OF l])
qed

end
