(* ===== verification/GoHTTP.thy ===== *)
theory GoHTTP
  imports GoStrings GoIO
begin

text \<open>
  The part of net/http (and html, html/template, path, path/filepath) that the handlers of the repository call:
  requests, the response writer, \<open>http.Error\<close>, escaping, \<open>path.Clean\<close>, escaped paths, \<open>StripPrefix\<close>.

  A response writer keeps the header map that the handler edits, the status line and header that
  were sent (fixed by the first final \<open>WriteHeader\<close> or \<open>Write\<close>), and the sink that takes the body.
  Status codes are between 100 and 999, as \<open>WriteHeader\<close> requires.
\<close>

subsection \<open>Responses\<close>

type_synonym header_map = "string \<rightharpoonup> string list"

record response =
  header :: header_map
  sent_head :: "(nat \<times> header_map) option"
  informational :: "nat list"
  sink :: writer
  head_method :: bool
  can_push :: bool
  pushed :: "string list"

definition new_response :: response where
  "new_response = \<lparr>header = Map.empty, sent_head = None, informational = [], sink = new_writer,
     head_method = False, can_push = False, pushed = []\<rparr>"

definition ErrBodyNotAllowed :: go_error where
  "ErrBodyNotAllowed = ErrText ''http: request method or response status code does not allow body''"

definition Header_Set :: "string \<Rightarrow> string \<Rightarrow> response \<Rightarrow> response" where
  "Header_Set k v w = w\<lparr>header := (header w)(k \<mapsto> [v])\<rparr>"

definition Header_Add :: "string \<Rightarrow> string \<Rightarrow> response \<Rightarrow> response" where
  "Header_Add k v w =
     w\<lparr>header := (header w)(k \<mapsto> (case header w k of Some vs \<Rightarrow> vs @ [v] | None \<Rightarrow> [v]))\<rparr>"

definition Header_Del :: "string \<Rightarrow> response \<Rightarrow> response" where
  "Header_Del k w = w\<lparr>header := (header w)(k := None)\<rparr>"

definition final_status :: "nat \<Rightarrow> bool" where
  "final_status code \<longleftrightarrow> code = 101 \<or> 200 \<le> code"

definition body_allowed :: "nat \<Rightarrow> bool" where
  "body_allowed code \<longleftrightarrow> 200 \<le> code \<and> code \<noteq> 204 \<and> code \<noteq> 304"

definition WriteHeader :: "nat \<Rightarrow> response \<Rightarrow> response" where
  "WriteHeader code w =
     (if sent_head w \<noteq> None then w
      else if \<not> final_status code then w\<lparr>informational := informational w @ [code]\<rparr>
      else w\<lparr>sent_head := Some (code, header w)\<rparr>)"

definition Write :: "byte list \<Rightarrow> response \<Rightarrow> response \<times> nat \<times> go_error option" where
  "Write b w =
     (let w = WriteHeader 200 w in
      if b = [] then (w, 0, None)
      else if \<not> (case sent_head w of Some (code, _) \<Rightarrow> body_allowed code | None \<Rightarrow> False)
      then (w, 0, Some ErrBodyNotAllowed)
      else if head_method w then (w, length b, None)
      else (case wr_write b (sink w) of (s, n, e) \<Rightarrow> (w\<lparr>sink := s\<rparr>, n, e)))"

definition http_Error :: "response \<Rightarrow> string \<Rightarrow> nat \<Rightarrow> response" where
  "http_Error w msg code =
     (let w = Header_Del ''Content-Length'' w;
          w = Header_Set ''Content-Type'' ''text/plain; charset=utf-8'' w;
          w = Header_Set ''X-Content-Type-Options'' ''nosniff'' w;
          w = WriteHeader code w in
      fst (Write (to_bytes (msg @ [CHR 0x0A])) w))"

definition status :: "response \<Rightarrow> nat option" where
  "status w = map_option fst (sent_head w)"

definition body_text :: "response \<Rightarrow> string" where
  "body_text w = of_bytes (accepted (sink w))"

text \<open>When the handler has returned, the server sends 200 if nothing was sent.\<close>

definition finish :: "response \<Rightarrow> response" where
  "finish w = WriteHeader 200 w"

lemma final_codes [simp]: "final_status 200" "final_status 404" "final_status 405" "final_status 500"
  by (simp_all add: final_status_def)

lemma status_Header [http_simps, simp]:
  "status (Header_Set k v w) = status w" "status (Header_Add k v w) = status w"
  "status (Header_Del k w) = status w"
  by (simp_all add: status_def Header_Set_def Header_Add_def Header_Del_def)

lemma status_WriteHeader [http_simps]:
  "status (WriteHeader code w) =
     (case status w of Some s \<Rightarrow> Some s | None \<Rightarrow> if final_status code then Some code else None)"
  by (auto simp: status_def WriteHeader_def split: option.splits)

lemma status_Write [http_simps]:
  "status (fst (Write b w)) = (case status w of Some s \<Rightarrow> Some s | None \<Rightarrow> Some 200)"
proof -
  have "status (fst (Write b w)) = status (WriteHeader 200 w)"
    by (auto simp: Write_def Let_def status_def split: prod.splits)
  then show ?thesis by (simp add: status_WriteHeader)
qed

lemma status_Error [http_simps]:
  "final_status code \<Longrightarrow> status (http_Error w msg code) = (case status w of Some s \<Rightarrow> Some s | None \<Rightarrow> Some code)"
  by (auto simp: http_Error_def Let_def http_simps split: option.splits)

text \<open>A writer on which writing the body succeeds.\<close>

definition writable :: "response \<Rightarrow> bool" where
  "writable w \<longleftrightarrow> script (sink w) = [] \<and> \<not> head_method w \<and>
     (case status w of None \<Rightarrow> True | Some s \<Rightarrow> body_allowed s)"

lemma WriteHeader_fields [http_simps, simp]:
  "sink (WriteHeader c w) = sink w" "head_method (WriteHeader c w) = head_method w"
  "header (WriteHeader c w) = header w" "body_text (WriteHeader c w) = body_text w"
  by (auto simp: WriteHeader_def body_text_def)

lemma Header_fields [http_simps, simp]:
  "sink (Header_Set k v w) = sink w" "sink (Header_Add k v w) = sink w" "sink (Header_Del k w) = sink w"
  "head_method (Header_Set k v w) = head_method w" "head_method (Header_Add k v w) = head_method w"
  "head_method (Header_Del k w) = head_method w"
  "body_text (Header_Set k v w) = body_text w" "body_text (Header_Add k v w) = body_text w"
  "body_text (Header_Del k w) = body_text w"
  by (simp_all add: Header_Set_def Header_Add_def Header_Del_def body_text_def)

lemma writable_Header [http_simps, simp]:
  "writable (Header_Set k v w) = writable w" "writable (Header_Add k v w) = writable w"
  "writable (Header_Del k w) = writable w"
  by (simp_all add: writable_def)

lemma writable_WriteHeader [http_simps]:
  "writable w \<Longrightarrow> final_status c \<Longrightarrow> body_allowed c \<Longrightarrow> writable (WriteHeader c w)"
  by (auto simp: writable_def status_WriteHeader split: option.splits)

lemma Write_writable [http_simps]:
  assumes "writable w"
  shows "writable (fst (Write b w))" "body_text (fst (Write b w)) = body_text w @ of_bytes b"
    "snd (Write b w) = (length b, None)"
proof -
  have ok: "case sent_head (WriteHeader 200 w) of Some (code, _) \<Rightarrow> body_allowed code | None \<Rightarrow> False"
    using assms by (auto simp: writable_def WriteHeader_def status_def body_allowed_def split: option.splits)
  show "body_text (fst (Write b w)) = body_text w @ of_bytes b" "snd (Write b w) = (length b, None)"
    using assms ok by (auto simp: Write_def Let_def writable_def body_text_def)
  have "script (sink (fst (Write b w))) = []" "head_method (fst (Write b w)) = head_method w"
    using assms ok by (auto simp: Write_def Let_def writable_def)
  then show "writable (fst (Write b w))"
    using assms by (auto simp: writable_def status_Write body_allowed_def split: option.splits)
qed

lemma Error_writable [http_simps]:
  assumes "writable w" "final_status c" "body_allowed c"
  shows "writable (http_Error w msg c)" "body_text (http_Error w msg c) = body_text w @ msg @ [CHR 0x0A]"
  using assms by (simp_all add: http_Error_def Let_def http_simps)

lemma body_allowed_codes [simp]: "body_allowed 200" "body_allowed 404" "body_allowed 405" "body_allowed 500"
  by (simp_all add: body_allowed_def)

subsection \<open>Requests and handlers\<close>

record request =
  Method :: string
  url_path :: string
  RawPath :: string
  Body :: reader
  body_closed :: bool

type_synonym handler = "request \<Rightarrow> response \<Rightarrow> request \<times> response"

text \<open>\<open>io.Copy(io.Discard, r)\<close> and \<open>r.Close()\<close>, as the handlers defer them.\<close>

definition drain_close :: "request \<Rightarrow> request" where
  "drain_close r = r\<lparr>Body := fst (read_all (Body r)), body_closed := True\<rparr>"

subsection \<open>Escaping\<close>

definition escape_char :: "char \<Rightarrow> string" where
  "escape_char c =
     (if c = CHR ''&'' then ''&amp;''
      else if c = CHR 0x27 then ''&#39;''
      else if c = CHR ''<'' then ''&lt;''
      else if c = CHR ''>'' then ''&gt;''
      else if c = CHR 0x22 then ''&#34;''
      else [c])"

definition EscapeString :: "string \<Rightarrow> string" where
  "EscapeString s = concat (map escape_char s)"

text \<open>What html/template does to a value in HTML text: also \<open>+\<close> and the zero byte are replaced.\<close>

definition template_escape_char :: "char \<Rightarrow> string" where
  "template_escape_char c =
     (if c = NUL then [CHR 0xEF, CHR 0xBF, CHR 0xBD]
      else if c = CHR ''+'' then ''&#43;''
      else escape_char c)"

definition template_escape :: "string \<Rightarrow> string" where
  "template_escape s = concat (map template_escape_char s)"

definition markup :: "char set" where
  "markup = {CHR ''<'', CHR ''>'', CHR 0x22, CHR 0x27}"

lemma escape_char_plain: "set (escape_char c) \<inter> markup = {}"
  by (auto simp: escape_char_def markup_def)

lemma EscapeString_plain: "set (EscapeString s) \<inter> markup = {}"
  using escape_char_plain by (fastforce simp: EscapeString_def)

lemma template_escape_plain: "set (template_escape s) \<inter> markup = {}"
proof -
  have "set (template_escape_char c) \<inter> markup = {}" for c
    using escape_char_plain [of c] by (auto simp: template_escape_char_def markup_def)
  then show ?thesis by (fastforce simp: template_escape_def)
qed

subsection \<open>Paths\<close>

text \<open>\<open>path.Clean\<close>: the components are kept on a stack, \<open>..\<close> takes the top one off.\<close>

definition clean_step :: "bool \<Rightarrow> string list \<Rightarrow> string \<Rightarrow> string list" where
  "clean_step rooted st c =
     (if c = [] \<or> c = ''.'' then st
      else if c = ''..'' then
        (case st of
           [] \<Rightarrow> if rooted then [] else [''..'']
         | t # rest \<Rightarrow> if t = ''..'' then ''..'' # st else rest)
      else c # st)"

definition clean_components :: "string \<Rightarrow> string list" where
  "clean_components p =
     rev (foldl (clean_step (p \<noteq> [] \<and> hd p = CHR ''/'')) [] (split_on CHR ''/'' p))"

definition path_Clean :: "string \<Rightarrow> string" where
  "path_Clean p =
     (let rooted = (p \<noteq> [] \<and> hd p = CHR ''/''); s = join ''/'' (clean_components p) in
      if rooted then CHR ''/'' # s else if s = [] then ''.'' else s)"

text \<open>\<open>filepath.Join\<close> of two elements, on Unix, where \<open>filepath.Clean\<close> is \<open>path.Clean\<close>.\<close>

definition filepath_Join :: "string \<Rightarrow> string \<Rightarrow> string" where
  "filepath_Join a b = (if a = [] then path_Clean b else path_Clean (a @ ''/'' @ b))"

definition rooted :: "string \<Rightarrow> bool" where
  "rooted p \<longleftrightarrow> p \<noteq> [] \<and> hd p = CHR ''/''"

definition good_component :: "bool \<Rightarrow> string \<Rightarrow> bool" where
  "good_component ro c \<longleftrightarrow> c \<noteq> [] \<and> CHR ''/'' \<notin> set c \<and> c \<noteq> ''.'' \<and> (ro \<longrightarrow> c \<noteq> ''..'')"

lemma clean_step_good:
  assumes "\<forall>c\<in>set st. good_component ro c" "CHR ''/'' \<notin> set c" "d \<in> set (clean_step ro st c)"
  shows "good_component ro d"
proof (cases "d \<in> set st")
  case False
  with assms have "d = c" "c \<noteq> []" "c \<noteq> ''.''" "ro \<longrightarrow> c \<noteq> ''..''"
    by (cases st; auto simp: clean_step_def good_component_def split: if_splits)+
  with assms(2) show ?thesis by (simp add: good_component_def)
qed (use assms in simp)

lemma clean_step_set: "set (clean_step ro st c) \<subseteq> insert c (set st)"
  by (auto simp: clean_step_def split: list.splits)

lemma clean_fold:
  assumes "\<forall>c\<in>set cs. CHR ''/'' \<notin> set c" and "\<forall>c\<in>set st. good_component ro c"
  shows "(\<forall>c\<in>set (foldl (clean_step ro) st cs). good_component ro c) \<and>
    set (foldl (clean_step ro) st cs) \<subseteq> set st \<union> set cs"
  using assms
proof (induction cs arbitrary: st)
  case Nil
  then show ?case by simp
next
  case (Cons c cs)
  have "\<forall>d\<in>set (clean_step ro st c). good_component ro d"
    using clean_step_good [OF Cons.prems(2), of c] Cons.prems(1) by simp
  from Cons.IH [OF _ this] Cons.prems(1) clean_step_set [of ro st c] show ?case
    by (simp, blast)
qed

lemma clean_components_good:
  "c \<in> set (clean_components p) \<Longrightarrow> good_component (rooted p) c \<and> c \<in> set (split_on CHR ''/'' p)"
  using clean_fold [of "split_on CHR ''/'' p" "[]" "rooted p"] split_on_no_sep [of _ "CHR ''/''" p]
  by (auto simp: clean_components_def rooted_def)

lemma split_path_Clean:
  "split_on CHR ''/'' (path_Clean p) =
     (if rooted p then [] # (if clean_components p = [] then [[]] else clean_components p)
      else if clean_components p = [] then [''.''] else clean_components p)"
proof -
  have good: "\<forall>w\<in>set (clean_components p). CHR ''/'' \<notin> set w" "[] \<notin> set (clean_components p)"
    using clean_components_good [of _ p] by (auto simp: good_component_def)
  have ne: "join ''/'' (clean_components p) \<noteq> []" if "clean_components p \<noteq> []"
    using that good(2) by (cases "clean_components p"; cases "tl (clean_components p)") auto
  show ?thesis
  proof (cases "clean_components p = []")
    case True
    then show ?thesis by (simp add: path_Clean_def rooted_def Let_def)
  next
    case False
    then show ?thesis
      using split_on_join [OF False good(1)] ne [OF False]
      by (cases "p = []") (simp_all add: path_Clean_def rooted_def Let_def)
  qed
qed

lemma clean_keeps_dots: "''..'' \<in> set st \<Longrightarrow> ''..'' \<in> set (foldl (clean_step False) st cs)"
proof (induction cs arbitrary: st)
  case Nil
  then show ?case by simp
next
  case (Cons c cs)
  have "''..'' \<in> set (clean_step False st c)"
    using Cons.prems by (auto simp: clean_step_def split: list.splits)
  then show ?case using Cons.IH by simp
qed

text \<open>A relative path that cleans to one without \<open>..\<close> has the same components when it is made absolute.\<close>

lemma clean_components_rooted:
  assumes "''..'' \<notin> set (clean_components p)"
  shows "clean_components (CHR ''/'' # p) = clean_components p"
proof -
  have "foldl (clean_step True) st cs = foldl (clean_step False) st cs"
    if "''..'' \<notin> set (foldl (clean_step False) st cs)" for st cs
    using that
  proof (induction cs arbitrary: st)
    case Nil
    then show ?case by simp
  next
    case (Cons c cs)
    have "''..'' \<notin> set (clean_step False st c)" using Cons.prems clean_keeps_dots by fastforce
    then have "clean_step True st c = clean_step False st c"
      by (auto simp: clean_step_def split: list.splits)
    then show ?case using Cons by simp
  qed
  then show ?thesis using assms
    by (cases "p \<noteq> [] \<and> hd p = CHR ''/''") (auto simp: clean_components_def clean_step_def)
qed

text \<open>
  The encoded form of a path: \<open>unescape\<close> and \<open>escape\<close> of net/url for paths, and \<open>EscapedPath\<close>, which
  takes \<open>RawPath\<close> if that is an encoding of the path.
\<close>

definition hex_digit :: "char \<Rightarrow> nat option" where
  "hex_digit c =
     (let n = of_char c :: nat in
      if 48 \<le> n \<and> n \<le> 57 then Some (n - 48)
      else if 97 \<le> n \<and> n \<le> 102 then Some (n - 87)
      else if 65 \<le> n \<and> n \<le> 70 then Some (n - 55)
      else None)"

fun url_unescape :: "string \<Rightarrow> string option" where
  "url_unescape [] = Some []"
| "url_unescape (c # s) =
     (if c \<noteq> CHR ''%'' then map_option ((#) c) (url_unescape s)
      else (case s of
              a # b # t \<Rightarrow>
                (case (hex_digit a, hex_digit b) of
                   (Some x, Some y) \<Rightarrow> map_option ((#) (char_of (16 * x + y))) (url_unescape t)
                 | _ \<Rightarrow> None)
            | _ \<Rightarrow> None))"

definition path_safe :: "char \<Rightarrow> bool" where
  "path_safe c \<longleftrightarrow>
     (let n = of_char c :: nat in
      48 \<le> n \<and> n \<le> 57 \<or> 65 \<le> n \<and> n \<le> 90 \<or> 97 \<le> n \<and> n \<le> 122 \<or> c \<in> set ''-_.~$&+,/:;=@'')"

definition hex_upper :: "nat \<Rightarrow> char" where
  "hex_upper d = char_of (if d < 10 then 48 + d else 55 + d)"

definition url_escape :: "string \<Rightarrow> string" where
  "url_escape s =
     concat (map (\<lambda>c. if path_safe c then [c]
                      else (let n = of_char c :: nat in [CHR ''%'', hex_upper (n div 16), hex_upper (n mod 16)])) s)"

definition valid_encoded :: "string \<Rightarrow> bool" where
  "valid_encoded s \<longleftrightarrow> list_all (\<lambda>c. path_safe c \<or> c \<in> set (CHR 0x27 # ''!()*[]%'')) s"

definition EscapedPath :: "request \<Rightarrow> string" where
  "EscapedPath r =
     (if RawPath r \<noteq> [] \<and> valid_encoded (RawPath r) \<and> url_unescape (RawPath r) = Some (url_path r) then RawPath r
      else if url_path r = ''*'' then ''*'' else url_escape (url_path r))"

text \<open>\<open>http.StripPrefix\<close>: the prefix must be on the path and on its encoded form, if it has one.\<close>

definition StripPrefix :: "string \<Rightarrow> handler \<Rightarrow> handler" where
  "StripPrefix pre h r w =
     (if has_prefix (url_path r) pre \<and> (RawPath r = [] \<or> has_prefix (RawPath r) pre)
      then (case h (r\<lparr>url_path := drop (length pre) (url_path r), RawPath := drop (length pre) (RawPath r)\<rparr>) w of
              (r', w) \<Rightarrow> (r'\<lparr>url_path := url_path r, RawPath := RawPath r\<rparr>, w))
      else (r, http_Error w ''404 page not found'' 404))"

subsection \<open>The interface of a response writer\<close>

text \<open>
  The calls a handler makes on the writer it is given, and the contract that the first final status
  wins.  The interface is interpreted on the server's own writer here and on the logging writer of
  chapter13/wide.go in Wide.
\<close>

datatype rw_call = CallWriteHeader nat | CallWrite "byte list" | CallSet string string

fun rw_do :: "rw_call \<Rightarrow> response \<Rightarrow> response" where
  "rw_do (CallWriteHeader code) w = WriteHeader code w"
| "rw_do (CallWrite b) w = fst (Write b w)"
| "rw_do (CallSet k v) w = Header_Set k v w"

fun call_status :: "rw_call \<Rightarrow> nat option" where
  "call_status (CallWriteHeader code) = (if final_status code then Some code else None)"
| "call_status (CallWrite b) = Some 200"
| "call_status (CallSet k v) = None"

fun first_status :: "rw_call list \<Rightarrow> nat option" where
  "first_status [] = None"
| "first_status (c # cs) = (case call_status c of Some s \<Rightarrow> Some s | None \<Rightarrow> first_status cs)"

definition rw_run :: "(rw_call \<Rightarrow> 'w \<Rightarrow> 'w) \<Rightarrow> rw_call list \<Rightarrow> 'w \<Rightarrow> 'w" where
  "rw_run call cs w = foldl (\<lambda>w c. call c w) w cs"

lemma rw_run_simps [simp]: "rw_run call [] w = w" "rw_run call (c # cs) w = rw_run call cs (call c w)"
  by (simp_all add: rw_run_def)

lemma rw_run_append: "rw_run call (cs @ ds) w = rw_run call ds (rw_run call cs w)"
  by (simp add: rw_run_def)

locale response_writer =
  fixes call :: "rw_call \<Rightarrow> 'w \<Rightarrow> 'w"
    and status_of :: "'w \<Rightarrow> nat option"
  assumes call_keeps: "status_of w = Some s \<Longrightarrow> status_of (call c w) = Some s"
    and call_sets: "status_of w = None \<Longrightarrow> status_of (call c w) = call_status c"
begin

lemma run_status:
  "status_of (rw_run call cs w) = (case status_of w of Some s \<Rightarrow> Some s | None \<Rightarrow> first_status cs)"
proof (induction cs arbitrary: w)
  case Nil
  then show ?case by (simp split: option.splits)
next
  case (Cons c cs)
  show ?case
    using Cons [of "call c w"] call_keeps [of w _ c] call_sets [of w c]
    by (auto split: option.splits)
qed

lemma run_keeps: "status_of w = Some s \<Longrightarrow> status_of (rw_run call cs w) = Some s"
  by (simp add: run_status)

end

interpretation base: response_writer rw_do status
proof
  show "status (rw_do c w) = Some s" if "status w = Some s" for w s c
    using that by (cases c) (simp_all add: http_simps)
  show "status (rw_do c w) = call_status c" if "status w = None" for w c
    using that by (cases c) (simp_all add: http_simps)
qed

end
