(* ===== verification/Handlers.thy ===== *)
theory Handlers
  imports GoHTTP "HOL-Library.Multiset" "HOL-Library.List_Lexorder" "HOL-Library.Char_ord"
begin

text \<open>
  Chapter9/handler.go and middleware.go: the default handler, the \<open>Methods\<close> multiplexer, the
  middleware that is meant to allow only GET, and \<open>RestrictPrefix\<close>; and the Caddy module of
  caddy/caddy-restrict-prefix, which is the same restriction without \<open>path.Clean\<close>.

  A \<open>Methods\<close> map is the list of its entries in the order in which the map is iterated, which Go
  leaves open; no method occurs twice.  A nil handler is \<open>None\<close>.
\<close>

subsection \<open>The default handler\<close>

text \<open>Executing the template \<open>Hello, {{.}}!\<close>: its parts are written one by one until one fails.\<close>

fun write_all :: "byte list list \<Rightarrow> response \<Rightarrow> response \<times> go_error option" where
  "write_all [] w = (w, None)"
| "write_all (b # bs) w =
     (case Write b w of
        (w, _, Some e) \<Rightarrow> (w, Some e)
      | (w, _, None) \<Rightarrow> write_all bs w)"

definition t_Execute :: "response \<Rightarrow> string \<Rightarrow> response" where
  "t_Execute w s =
     fst (write_all [to_bytes ''Hello, '', to_bytes (template_escape s), to_bytes ''!''] w)"

definition DefaultHandler :: handler where
  "DefaultHandler r w =
     (let w' =
        (if Method r = ''GET'' then (r, t_Execute w ''friend'')
         else if Method r = ''POST'' then
           (case read_all (Body r) of
              (body, b, Some err) \<Rightarrow> (r\<lparr>Body := body\<rparr>, http_Error w ''Internal server error'' 500)
            | (body, b, None) \<Rightarrow> (r\<lparr>Body := body\<rparr>, t_Execute w (of_bytes b)))
         else (r, http_Error w ''Method not allowed'' 405)) in
      (drain_close (fst w'), snd w'))"

subsection \<open>Methods\<close>

type_synonym Methods = "(string \<times> handler option) list"

definition allowedMethods :: "Methods \<Rightarrow> string" where
  "allowedMethods h = join '', '' (sort (map fst h))"

definition Methods_ServeHTTP :: "Methods \<Rightarrow> handler" where
  "Methods_ServeHTTP h r w =
     (let (r, w) =
        (case map_of h (Method r) of
           Some None \<Rightarrow> (r, http_Error w ''Internal server error'' 500)
         | Some (Some handler) \<Rightarrow> handler r w
         | None \<Rightarrow>
             let w = Header_Add ''Allow'' (allowedMethods h) w in
             (r, if Method r \<noteq> ''OPTIONS'' then http_Error w ''Method not allowed'' 405 else w)) in
      (drain_close r, w))"

definition get_friend :: handler where
  "get_friend r w = (r, fst (Write (to_bytes ''Hello, friend!'') w))"

definition post_hello :: handler where
  "post_hello r w =
     (case read_all (Body r) of
        (body, b, Some err) \<Rightarrow> (r\<lparr>Body := body\<rparr>, http_Error w ''Internal server error'' 500)
      | (body, b, None) \<Rightarrow>
          (r\<lparr>Body := body\<rparr>, fst (Write (to_bytes (''Hello, '' @ EscapeString (of_bytes b) @ ''!'')) w)))"

definition DefaultMethodsHandler :: handler where
  "DefaultMethodsHandler =
     Methods_ServeHTTP [(''GET'', Some get_friend), (''POST'', Some post_hello)]"

subsection \<open>Middleware\<close>

text \<open>There is no \<open>return\<close> after the error, so the next handler runs for every method.\<close>

definition Middleware :: "handler \<Rightarrow> handler" where
  "Middleware next_handler r w =
     (let w = (if Method r \<noteq> ''GET'' then http_Error w ''Method not allowed'' 405 else w);
          w = Header_Set ''X-Content-Type-Options'' ''nosniff'' w in
      next_handler r w)"

fun restricted_part :: "string \<Rightarrow> string list \<Rightarrow> string option" where
  "restricted_part pre [] = None"
| "restricted_part pre (p # ps) =
     (if has_prefix p pre then Some p else restricted_part pre ps)"

definition RestrictPrefix :: "string \<Rightarrow> handler \<Rightarrow> handler" where
  "RestrictPrefix pre next_handler r w =
     (case restricted_part pre (split_on CHR ''/'' (path_Clean (url_path r))) of
        Some _ \<Rightarrow> (r, http_Error w ''Not Found'' 404)
      | None \<Rightarrow> next_handler r w)"

subsection \<open>The Caddy module\<close>

record caddy_module =
  Prefix :: string
  logger :: "string list option"

definition Provision :: "caddy_module \<Rightarrow> caddy_module" where
  "Provision p = p\<lparr>logger := Some []\<rparr>"

definition Validate :: "caddy_module \<Rightarrow> caddy_module" where
  "Validate p = (if Prefix p = [] then p\<lparr>Prefix := ''.''\<rparr> else p)"

text \<open>
  \<open>quote\<close> is \<open>%q\<close>.  The module's logger collects the debug messages; \<open>next\<close> may return an error.
\<close>

definition caddy_ServeHTTP ::
  "(string \<Rightarrow> string) \<Rightarrow> (request \<Rightarrow> response \<Rightarrow> request \<times> response \<times> go_error option) \<Rightarrow>
   caddy_module \<Rightarrow> request \<Rightarrow> response \<Rightarrow> caddy_module \<times> request \<times> response \<times> go_error option" where
  "caddy_ServeHTTP quote next_handler p r w =
     (case restricted_part (Prefix p) (split_on CHR ''/'' (url_path r)) of
        Some part \<Rightarrow>
          (p\<lparr>logger := map_option
               (\<lambda>l. l @ [''restricted prefix: '' @ quote part @ '' in '' @ url_path r]) (logger p)\<rparr>,
           r, http_Error w ''Not Found'' 404, None)
      | None \<Rightarrow> (p, next_handler r w))"

subsection \<open>Restricting paths\<close>

lemma restricted_part_None:
  "restricted_part pre ps = None \<longleftrightarrow> (\<forall>p\<in>set ps. \<not> prefix pre p)"
  by (induction pre ps rule: restricted_part.induct) (auto simp: has_prefix_iff)

text \<open>The components that \<open>RestrictPrefix\<close> tests.\<close>

definition tested_components :: "string \<Rightarrow> string list" where
  "tested_components p =
     (if clean_components p = [] \<and> \<not> rooted p then [''.''] else clean_components p)"

lemma restricted_tested:
  "pre \<noteq> [] \<Longrightarrow> restricted_part pre (split_on CHR ''/'' (path_Clean p)) = None \<longleftrightarrow>
    (\<forall>c\<in>set (tested_components p). \<not> prefix pre c)"
  by (auto simp: restricted_part_None split_path_Clean tested_components_def)

text \<open>
  C8: \<open>RestrictPrefix\<close> answers 404 without calling the next handler exactly when a component of the
  cleaned path starts with the prefix, and otherwise is the next handler.  A path that gets through
  with prefix \<open>.\<close> therefore has no hidden component and no \<open>..\<close> left in it; the empty path cleans to
  \<open>.\<close> and is refused too.
\<close>

theorem restrict_prefix_exact:
  assumes "pre \<noteq> []"
  shows "RestrictPrefix pre next_handler r w =
      (if \<exists>c\<in>set (tested_components (url_path r)). prefix pre c
       then (r, http_Error w ''Not Found'' 404) else next_handler r w) \<and>
    (\<forall>c\<in>set (clean_components (url_path r)). c \<noteq> [] \<and> c \<noteq> ''.'' \<and> (rooted (url_path r) \<longrightarrow> c \<noteq> ''..''))"
proof (rule conjI)
  show "RestrictPrefix pre next_handler r w =
      (if \<exists>c\<in>set (tested_components (url_path r)). prefix pre c
       then (r, http_Error w ''Not Found'' 404) else next_handler r w)"
    using restricted_tested [OF assms, of "url_path r"]
    by (cases "restricted_part pre (split_on CHR ''/'' (path_Clean (url_path r)))")
      (auto simp: RestrictPrefix_def)
  show "\<forall>c\<in>set (clean_components (url_path r)). c \<noteq> [] \<and> c \<noteq> ''.'' \<and> (rooted (url_path r) \<longrightarrow> c \<noteq> ''..'')"
    using clean_components_good by (auto simp: good_component_def)
qed

definition get_request :: "string \<Rightarrow> request" where
  "get_request p = \<lparr>Method = ''GET'', url_path = p, RawPath = [], Body = bytes_reader [], body_closed = False\<rparr>"

theorem restrict_prefix_exact_witness:
  "RestrictPrefix ''.'' get_friend (get_request ''a/../.git/config'') new_response =
     (get_request ''a/../.git/config'', http_Error new_response ''Not Found'' 404) \<and>
   RestrictPrefix ''.'' get_friend (get_request ''/.x/../css/a.css'') new_response =
     get_friend (get_request ''/.x/../css/a.css'') new_response \<and>
   RestrictPrefix ''.'' get_friend (get_request []) new_response = (get_request [], http_Error new_response ''Not Found'' 404)"
proof -
  have t: "tested_components ''a/../.git/config'' = [''.git'', ''config'']"
    "tested_components ''/.x/../css/a.css'' = [''css'', ''a.css'']"
    "tested_components [] = [''.'']"
    by code_simp+
  have p: "''.'' \<noteq> ([] :: string)" by simp
  show ?thesis
    using restrict_prefix_exact [OF p, of get_friend "get_request ''a/../.git/config''" new_response]
      restrict_prefix_exact [OF p, of get_friend "get_request ''/.x/../css/a.css''" new_response]
      restrict_prefix_exact [OF p, of get_friend "get_request []" new_response]
    unfolding get_request_def by (simp add: t)
qed

definition caddy_restricts :: "caddy_module \<Rightarrow> string \<Rightarrow> bool" where
  "caddy_restricts p path \<longleftrightarrow> restricted_part (Prefix p) (split_on CHR ''/'' path) \<noteq> None"

definition ch9_restricts :: "string \<Rightarrow> string \<Rightarrow> bool" where
  "ch9_restricts pre path \<longleftrightarrow> restricted_part pre (split_on CHR ''/'' (path_Clean path)) \<noteq> None"

lemma Validate_Prefix [simp]: "Prefix (Validate p) \<noteq> []" "Prefix p \<noteq> [] \<Longrightarrow> Prefix (Validate p) = Prefix p"
  by (simp_all add: Validate_def)

text \<open>
  C26: On absolute paths the validated Caddy module is at least as strict as chapter 9's
  \<open>RestrictPrefix\<close> with the same prefix, and they decide alike on every path that is already clean;
  what the module refuses in addition is hidden parts that \<open>path.Clean\<close> would have removed.  The
  module answers 404 with no error, and otherwise returns what the next handler returns.
\<close>

theorem caddy_at_least_as_strict:
  assumes "rooted path" and "url_path r = path"
  shows "(ch9_restricts (Prefix (Validate p)) path \<longrightarrow> caddy_restricts (Validate p) path) \<and>
    (path_Clean path = path \<longrightarrow> ch9_restricts (Prefix (Validate p)) path = caddy_restricts (Validate p) path) \<and>
    RestrictPrefix (Prefix (Validate p)) ch9_next r w =
      (if ch9_restricts (Prefix (Validate p)) path then (r, http_Error w ''Not Found'' 404) else ch9_next r w) \<and>
    snd (caddy_ServeHTTP quote next_handler (Validate p) r w) =
      (if caddy_restricts (Validate p) path then (r, http_Error w ''Not Found'' 404, None) else next_handler r w)"
proof (intro conjI impI)
  assume "ch9_restricts (Prefix (Validate p)) path"
  then obtain c where "c \<in> set (clean_components path)" "prefix (Prefix (Validate p)) c"
    using restricted_tested [of "Prefix (Validate p)" path] assms(1)
    by (auto simp: ch9_restricts_def tested_components_def)
  then show "caddy_restricts (Validate p) path"
    using clean_components_good [of c path]
      restricted_part_None [of "Prefix (Validate p)" "split_on CHR ''/'' path"]
    by (auto simp: caddy_restricts_def)
next
  assume "path_Clean path = path"
  then show "ch9_restricts (Prefix (Validate p)) path = caddy_restricts (Validate p) path"
    by (simp add: ch9_restricts_def caddy_restricts_def)
next
  show "RestrictPrefix (Prefix (Validate p)) ch9_next r w =
      (if ch9_restricts (Prefix (Validate p)) path then (r, http_Error w ''Not Found'' 404) else ch9_next r w)"
    using assms(2) by (auto simp: RestrictPrefix_def ch9_restricts_def split: option.splits)
next
  show "snd (caddy_ServeHTTP quote next_handler (Validate p) r w) =
      (if caddy_restricts (Validate p) path then (r, http_Error w ''Not Found'' 404, None) else next_handler r w)"
    using assms(2) by (auto simp: caddy_ServeHTTP_def caddy_restricts_def split: option.splits)
qed

theorem caddy_at_least_as_strict_witness:
  "caddy_restricts (Validate \<lparr>Prefix = [], logger = None\<rparr>) ''/.git/x'' \<and>
   caddy_restricts (Validate \<lparr>Prefix = [], logger = None\<rparr>) ''/a/./b'' \<and> \<not> ch9_restricts ''.'' ''/a/./b''"
proof (intro conjI)
  have "rooted ''/.git/x''" by code_simp
  moreover have "ch9_restricts (Prefix (Validate \<lparr>Prefix = [], logger = None\<rparr>)) ''/.git/x''" by code_simp
  ultimately show "caddy_restricts (Validate \<lparr>Prefix = [], logger = None\<rparr>) ''/.git/x''"
    using caddy_at_least_as_strict [where path = "''/.git/x''" and r = "get_request ''/.git/x''"
        and p = "\<lparr>Prefix = [], logger = None\<rparr>"]
    by (simp add: get_request_def)
  show "caddy_restricts (Validate \<lparr>Prefix = [], logger = None\<rparr>) ''/a/./b''" by code_simp
  show "\<not> ch9_restricts ''.'' ''/a/./b''" by code_simp
qed

subsection \<open>What the handlers answer\<close>

lemma write_all_writable:
  "writable w \<Longrightarrow> writable (fst (write_all bs w)) \<and>
    body_text (fst (write_all bs w)) = body_text w @ of_bytes (concat bs)"
proof (induction bs arbitrary: w)
  case Nil
  then show ?case by simp
next
  case (Cons b bs)
  obtain w' n e where W: "Write b w = (w', n, e)" by (metis prod_cases3)
  then have "e = None" "writable w'" "body_text w' = body_text w @ of_bytes b"
    using Write_writable [OF Cons.prems, of b] by simp_all
  then show ?case using W Cons.IH [of w'] by simp
qed

lemma write_all_status: "bs \<noteq> [] \<Longrightarrow> status w = None \<Longrightarrow> status (fst (write_all bs w)) = Some 200"
proof -
  have keep: "status w = Some s \<Longrightarrow> status (fst (write_all bs w)) = Some s" for s w bs
  proof (induction bs arbitrary: w)
    case (Cons b bs)
    then show ?case
      using status_Write [of b w] by (auto split: prod.splits option.splits)
  qed simp
  assume "bs \<noteq> []" "status w = None"
  then obtain b bs' where "bs = b # bs'" by (cases bs) auto
  then show ?thesis
    using status_Write [of b w] \<open>status w = None\<close> keep
    by (auto split: prod.splits option.splits)
qed

lemma t_Execute_ok:
  assumes "writable w" "status w = None"
  shows "status (t_Execute w s) = Some 200"
    "body_text (t_Execute w s) = body_text w @ ''Hello, '' @ template_escape s @ ''!''"
proof -
  let ?bs = "[to_bytes ''Hello, '', to_bytes (template_escape s), to_bytes ''!'']"
  show "status (t_Execute w s) = Some 200"
    unfolding t_Execute_def by (rule write_all_status) (simp_all add: assms)
  have "body_text (fst (write_all ?bs w)) = body_text w @ of_bytes (concat ?bs)"
    using write_all_writable [OF assms(1)] by blast
  then show "body_text (t_Execute w s) = body_text w @ ''Hello, '' @ template_escape s @ ''!''"
    unfolding t_Execute_def by (simp only: concat.simps of_bytes_simps of_bytes_to_bytes append_Nil2)
qed

text \<open>
  C22: Both greeting handlers answer a POST with 200 and the greeting around the escaped request body;
  the escaped text has no markup characters, so the body of the request cannot add elements or
  attributes to the page.  If the request body cannot be read the answer is 500 and does not contain
  any of it.  The body is drained and closed in either case.
\<close>

theorem greeting_is_escaped:
  assumes "writable w" and "status w = None" and "body_text w = []" and "Method r = ''POST''"
  shows "let input = of_bytes (stream (Body r));
           (r1, w1) = DefaultHandler r w; (r2, w2) = DefaultMethodsHandler r w in
    (if fin (Body r) = EOF
     then status w1 = Some 200 \<and> body_text w1 = ''Hello, '' @ template_escape input @ ''!'' \<and>
          status w2 = Some 200 \<and> body_text w2 = ''Hello, '' @ EscapeString input @ ''!''
     else status w1 = Some 500 \<and> body_text w1 = ''Internal server error'' @ [CHR 0x0A] \<and>
          status w2 = Some 500 \<and> body_text w2 = ''Internal server error'' @ [CHR 0x0A]) \<and>
    set (template_escape input) \<inter> markup = {} \<and> set (EscapeString input) \<inter> markup = {} \<and>
    body_closed r1 \<and> stream (Body r1) = [] \<and> body_closed r2 \<and> stream (Body r2) = []"
proof -
  note e = t_Execute_ok [OF assms(1,2)]
  have d: "body_closed (drain_close r)" "stream (Body (drain_close r)) = []" for r
    by (simp_all add: drain_close_def read_all_drains)
  show ?thesis
    using assms e d template_escape_plain EscapeString_plain
    by (simp add: DefaultHandler_def DefaultMethodsHandler_def Methods_ServeHTTP_def post_hello_def
        read_all_def Let_def http_simps del: to_bytes_simps)
qed

definition post_request :: "string \<Rightarrow> request" where
  "post_request b = \<lparr>Method = ''POST'', url_path = ''/'', RawPath = [], Body = bytes_reader (to_bytes b), body_closed = False\<rparr>"

lemma new_response_writable: "writable new_response" "status new_response = None" "body_text new_response = []"
  by (simp_all add: writable_def new_response_def new_writer_def status_def body_text_def)

theorem greeting_is_escaped_witness:
  "body_text (snd (DefaultHandler (post_request ''<b>1+1</b>'') new_response)) =
     ''Hello, &lt;b&gt;1&#43;1&lt;/b&gt;!'' \<and>
   body_text (snd (DefaultMethodsHandler (post_request ''<b>1+1</b>'') new_response)) =
     ''Hello, &lt;b&gt;1+1&lt;/b&gt;!''"
proof -
  have "Method (post_request ''<b>1+1</b>'') = ''POST''" "fin (Body (post_request ''<b>1+1</b>'')) = EOF"
    "of_bytes (stream (Body (post_request ''<b>1+1</b>''))) = ''<b>1+1</b>''"
    by (simp_all add: post_request_def del: to_bytes_simps)
  moreover have "template_escape ''<b>1+1</b>'' = ''&lt;b&gt;1&#43;1&lt;/b&gt;''"
    "EscapeString ''<b>1+1</b>'' = ''&lt;b&gt;1+1&lt;/b&gt;''" by code_simp+
  ultimately show ?thesis
    using greeting_is_escaped [OF new_response_writable, of "post_request ''<b>1+1</b>''"]
    by (simp add: Let_def prod.case_eq_if)
qed

text \<open>
  C23: \<open>Methods\<close> runs the handler registered for the request's method; a nil handler gives 500; for
  any other method the response carries an \<open>Allow\<close> header that lists the registered methods, with an
  empty 200 for OPTIONS and 405 otherwise.  In every case the request body is drained and closed.
\<close>

theorem methods_dispatch:
  assumes "writable w" and "status w = None" and "body_text w = []"
  shows "let (r', w') = Methods_ServeHTTP h r w in
    (case map_of h (Method r) of
       Some (Some hdl) \<Rightarrow> r' = drain_close (fst (hdl r w)) \<and> w' = snd (hdl r w)
     | Some None \<Rightarrow>
         r' = drain_close r \<and> status w' = Some 500 \<and> body_text w' = ''Internal server error'' @ [CHR 0x0A]
     | None \<Rightarrow>
         r' = drain_close r \<and> body_text w' = (if Method r = ''OPTIONS'' then [] else ''Method not allowed'' @ [CHR 0x0A]) \<and>
         (\<exists>H. sent_head (finish w') = Some (if Method r = ''OPTIONS'' then 200 else 405, H) \<and>
              H ''Allow'' = Some ((case header w ''Allow'' of Some vs \<Rightarrow> vs | None \<Rightarrow> []) @ [allowedMethods h])))"
proof (cases "map_of h (Method r)")
  case (Some ho)
  then show ?thesis
    using assms by (cases ho) (auto simp: Methods_ServeHTTP_def Let_def http_simps split: prod.splits)
next
  case None
  let ?w = "Header_Add ''Allow'' (allowedMethods h) w"
  have a: "header ?w ''Allow'' = Some ((case header w ''Allow'' of Some vs \<Rightarrow> vs | None \<Rightarrow> []) @ [allowedMethods h])"
    by (simp add: Header_Add_def split: option.splits)
  have s: "sent_head w = None" using assms(2) by (simp add: status_def)
  have keep: "sent_head (fst (Write b v)) = sent_head v" if "sent_head v \<noteq> None" for b v
    using that by (auto simp: Write_def WriteHeader_def Let_def split: prod.splits)
  show ?thesis
  proof (cases "Method r = ''OPTIONS''")
    case True
    then show ?thesis
      using None a s assms by (simp add: Methods_ServeHTTP_def Let_def finish_def WriteHeader_def Header_Add_def body_text_def)
  next
    case False
    let ?v = "Header_Set ''X-Content-Type-Options'' ''nosniff''
      (Header_Set ''Content-Type'' ''text/plain; charset=utf-8'' (Header_Del ''Content-Length'' ?w))"
    have sv: "sent_head ?v = None"
      using s by (simp add: Header_Set_def Header_Add_def Header_Del_def)
    have hv: "header ?v ''Allow'' = header ?w ''Allow''"
      by (simp add: Header_Set_def Header_Del_def)
    have v: "sent_head (WriteHeader 405 ?v) = Some (405, header ?v)"
      using sv by (simp add: WriteHeader_def)
    then have "sent_head (http_Error ?w ''Method not allowed'' 405) = Some (405, header ?v)"
      using keep [of "WriteHeader 405 ?v"] by (simp add: http_Error_def Let_def)
    then show ?thesis
      using None False a hv assms Error_writable(2) [of ?w 405 "''Method not allowed''"]
      by (simp add: Methods_ServeHTTP_def Let_def finish_def WriteHeader_def)
  qed
qed

theorem methods_dispatch_witness:
  "body_text (snd (DefaultMethodsHandler (get_request ''/'') new_response)) = ''Hello, friend!'' \<and>
   (\<exists>H. sent_head (finish (snd (DefaultMethodsHandler ((get_request ''/'')\<lparr>Method := ''PUT''\<rparr>) new_response)))
      = Some (405, H) \<and> H ''Allow'' = Some [''GET, POST''])"
proof (rule conjI)
  let ?h = "[(''GET'', Some get_friend), (''POST'', Some post_hello)]"
  have m: "snd (Methods_ServeHTTP ?h (get_request ''/'') new_response) =
      snd (get_friend (get_request ''/'') new_response)"
    using methods_dispatch [OF new_response_writable, of ?h "get_request ''/''"]
    by (auto simp: Let_def get_request_def)
  have "body_text (snd (get_friend (get_request ''/'') new_response)) = ''Hello, friend!''"
    using Write_writable(2) [OF new_response_writable(1)] new_response_writable(3)
    by (simp add: get_friend_def del: to_bytes_simps)
  then show "body_text (snd (DefaultMethodsHandler (get_request ''/'') new_response)) = ''Hello, friend!''"
    unfolding DefaultMethodsHandler_def m .
  have "allowedMethods ?h = ''GET, POST''" by code_simp
  then show "\<exists>H. sent_head (finish (snd (DefaultMethodsHandler ((get_request ''/'')\<lparr>Method := ''PUT''\<rparr>) new_response)))
      = Some (405, H) \<and> H ''Allow'' = Some [''GET, POST'']"
    using methods_dispatch [OF new_response_writable, of ?h "(get_request ''/'')\<lparr>Method := ''PUT''\<rparr>"]
    by (auto simp: Let_def get_request_def DefaultMethodsHandler_def new_response_def)
qed

text \<open>
  Go iterates a map in any order; the multiplexer's behaviour does not depend on it.  Whatever
  the order of the entries, the same handler is chosen and the \<open>Allow\<close> header is the same: every
  registered method once, in ascending order.
\<close>

theorem methods_order_irrelevant:
  assumes "mset h = mset h'" and "distinct (map fst h)"
  shows "Methods_ServeHTTP h = Methods_ServeHTTP h' \<and>
    (\<exists>ks. allowedMethods h = join '', '' ks \<and> sorted ks \<and> distinct ks \<and> set ks = fst ` set h)"
proof -
  have d': "distinct (map fst h')"
    using assms by (metis mset_eq_imp_distinct_iff mset_map)
  have "map_of h k = map_of h' k" for k
  proof (rule option.expand)
    show "(map_of h k = None) = (map_of h' k = None)"
      using mset_eq_setD [OF assms(1)] by (simp add: map_of_eq_None_iff)
    show "the (map_of h k) = the (map_of h' k)" if n: "map_of h k \<noteq> None" "map_of h' k \<noteq> None"
    proof -
      obtain v where v: "map_of h k = Some v" using n(1) by auto
      then have "(k, v) \<in> set h'" using mset_eq_setD [OF assms(1)] map_of_SomeD by fastforce
      then show ?thesis using v map_of_is_SomeI [OF d'] by simp
    qed
  qed
  then have "map_of h = map_of h'" by (rule ext)
  moreover have "sort (map fst h) = sort (map fst h')"
    using assms(1) by (metis mset_map properties_for_sort mset_sort sorted_sort)
  moreover from this have "allowedMethods h = allowedMethods h'" by (simp add: allowedMethods_def)
  ultimately have "Methods_ServeHTTP h r w = Methods_ServeHTTP h' r w" for r w
    unfolding Methods_ServeHTTP_def by (simp only: )
  then have "Methods_ServeHTTP h = Methods_ServeHTTP h'" by (simp add: fun_eq_iff)
  moreover have "sorted (sort (map fst h))" "distinct (sort (map fst h))" "set (sort (map fst h)) = fst ` set h"
    using assms(2) by simp_all
  ultimately show ?thesis unfolding allowedMethods_def by blast
qed

theorem methods_order_irrelevant_witness:
  "Methods_ServeHTTP [(''POST'', Some post_hello), (''GET'', Some get_friend)] = DefaultMethodsHandler"
  using methods_order_irrelevant [of "[(''POST'', Some post_hello), (''GET'', Some get_friend)]"
      "[(''GET'', Some get_friend), (''POST'', Some post_hello)]"]
  by (simp add: DefaultMethodsHandler_def add_mset_commute)

definition calls_handler :: "rw_call list \<Rightarrow> handler" where
  "calls_handler calls r w = (r, rw_run rw_do calls w)"

fun call_bytes :: "rw_call \<Rightarrow> byte list" where
  "call_bytes (CallWrite b) = b"
| "call_bytes _ = []"

lemma call_body:
  assumes "writable w" "status w = Some s"
  shows "writable (rw_do c w)" "body_text (rw_do c w) = body_text w @ of_bytes (call_bytes c)"
proof -
  have "WriteHeader code w = w" for code using assms(2) by (auto simp: WriteHeader_def status_def)
  then show "writable (rw_do c w)" "body_text (rw_do c w) = body_text w @ of_bytes (call_bytes c)"
    using assms(1) by (cases c; simp add: Write_writable)+
qed

lemma run_calls_body:
  "writable w \<Longrightarrow> status w = Some s \<Longrightarrow> writable (rw_run rw_do cs w) \<and>
    body_text (rw_run rw_do cs w) = body_text w @ of_bytes (concat (map call_bytes cs))"
proof (induction cs arbitrary: w)
  case Nil
  then show ?case by simp
next
  case (Cons c cs)
  have "status (rw_do c w) = Some s" using base.call_keeps [OF Cons.prems(2)] .
  then show ?case using Cons.IH [of "rw_do c w"] call_body [OF Cons.prems] by simp
qed

text \<open>
  \<open>Middleware\<close> reports 405 for a method other than GET but still runs the next handler: the
  status stays 405 whatever the next handler calls, and what it writes follows the error message in
  the body.  For GET the next handler runs on a writer that differs only in the \<open>nosniff\<close> header.
\<close>

theorem middleware_does_not_block:
  assumes "writable w" and "status w = None" and "body_text w = []"
  shows "(if Method r = ''GET''
      then Middleware next_handler r w = next_handler r (Header_Set ''X-Content-Type-Options'' ''nosniff'' w)
      else status (snd (Middleware (calls_handler calls) r w)) = Some 405 \<and>
        body_text (snd (Middleware (calls_handler calls) r w)) =
          ''Method not allowed'' @ [CHR 0x0A] @ of_bytes (concat (map call_bytes calls)))"
proof (cases "Method r = ''GET''")
  case True
  then show ?thesis by (simp add: Middleware_def)
next
  case False
  let ?w = "Header_Set ''X-Content-Type-Options'' ''nosniff'' (http_Error w ''Method not allowed'' 405)"
  have w: "writable ?w" "status ?w = Some 405" "body_text ?w = ''Method not allowed'' @ [CHR 0x0A]"
    using assms by (simp_all add: http_simps)
  have m: "snd (Middleware (calls_handler calls) r w) = rw_run rw_do calls ?w"
    using False by (simp add: Middleware_def calls_handler_def)
  show ?thesis
    unfolding m using False base.run_keeps [OF w(2)] run_calls_body [OF w(1,2)] w(3) by simp
qed

theorem middleware_does_not_block_witness:
  "body_text (snd (Middleware (calls_handler [CallWriteHeader 200, CallWrite (to_bytes ''secret'')])
      (post_request []) new_response)) = ''Method not allowed'' @ [CHR 0x0A] @ ''secret''"
proof -
  have "Method (post_request []) \<noteq> ''GET''" by (simp add: post_request_def)
  then show ?thesis
    using middleware_does_not_block [OF new_response_writable, of "post_request []" "\<lambda>r w. (r, w)"
        "[CallWriteHeader 200, CallWrite (to_bytes ''secret'')]"]
    by (simp del: to_bytes_simps)
qed

end
