(* ===== verification/Caddy.thy ===== *)
theory Caddy
  imports Handlers
begin

text \<open>
  The two extensions of Caddy: the life of the restrict_prefix module from its registration to its
  requests (caddy/caddy-restrict-prefix/restrict_prefix.go, whose operations are in Handlers), and the
  adapter for configurations in TOML (caddy/caddy-adapter/toml.go).  Caddy itself, the TOML parser and
  the JSON encoder are parameters.
\<close>

subsection \<open>Registration\<close>

record module_info =
  module_ID :: string
  module_New :: caddy_module

text \<open>\<open>new(RestrictPrefix)\<close> is the zero value.\<close>

definition CaddyModule :: module_info where
  "CaddyModule = \<lparr>module_ID = ''http.handlers.restrict_prefix'', module_New = \<lparr>Prefix = [], logger = None\<rparr>\<rparr>"

definition init_module :: "(module_info \<Rightarrow> 'reg \<Rightarrow> 'reg) \<Rightarrow> 'reg \<Rightarrow> 'reg" where
  "init_module register_module reg = register_module CaddyModule reg"

subsection \<open>The adapter\<close>

record ('tree, 'map) toml_lib =
  LoadBytes :: "byte list \<Rightarrow> 'tree result"
  ToMap :: "'tree \<Rightarrow> 'map"
  json_Marshal :: "'map \<Rightarrow> byte list option \<times> go_error option"

text \<open>The bytes may be nil, there are never warnings, and the options are ignored.\<close>

definition Adapt ::
  "('tree, 'map) toml_lib \<Rightarrow> byte list \<Rightarrow> 'opts \<Rightarrow> byte list option \<times> string list \<times> go_error option" where
  "Adapt L body opts =
     (case LoadBytes L body of
        Inl err \<Rightarrow> (None, [], Some err)
      | Inr tree \<Rightarrow> (case json_Marshal L (ToMap L tree) of (b, err) \<Rightarrow> (b, [], err)))"

definition init_adapter ::
  "(string \<Rightarrow> (byte list \<Rightarrow> 'opts \<Rightarrow> byte list option \<times> string list \<times> go_error option) \<Rightarrow> 'reg \<Rightarrow> 'reg) \<Rightarrow>
   ('tree, 'map) toml_lib \<Rightarrow> 'reg \<Rightarrow> 'reg" where
  "init_adapter register_adapter L reg = register_adapter ''toml'' (Adapt L) reg"

subsection \<open>From a configuration to requests\<close>

text \<open>
  What Caddy does with a module, by its documentation: it makes a new one, reads the module's part of
  the JSON configuration into it, provisions and validates it.  \<open>decode\<close> finds that part and decodes it.
\<close>

definition load_module ::
  "(byte list \<Rightarrow> caddy_module \<Rightarrow> caddy_module result) \<Rightarrow> module_info \<Rightarrow> byte list \<Rightarrow> caddy_module result" where
  "load_module decode info raw = map_sum id (Validate \<circ> Provision) (decode raw (module_New info))"

definition load_toml ::
  "('tree, 'map) toml_lib \<Rightarrow> (byte list \<Rightarrow> caddy_module \<Rightarrow> caddy_module result) \<Rightarrow> byte list \<Rightarrow> caddy_module result" where
  "load_toml L decode body =
     (case Adapt L body () of
        (_, _, Some err) \<Rightarrow> Inl err
      | (b, _, None) \<Rightarrow> load_module decode CaddyModule (case b of None \<Rightarrow> [] | Some b \<Rightarrow> b))"

text \<open>
  The documented round trip: what the encoder makes of a map, the decoder either refuses (the value
  of a key does not fit its field, or a key belongs to no field) or reads back, setting the field
  with the tag \<open>prefix\<close> if the module's part of the map has that key and leaving it if not; the
  unexported logger is never decoded.
\<close>

definition json_law ::
  "('tree, 'map) toml_lib \<Rightarrow> (byte list \<Rightarrow> caddy_module \<Rightarrow> caddy_module result) \<Rightarrow> ('map \<Rightarrow> string option) \<Rightarrow> bool" where
  "json_law L decode prefix_key \<longleftrightarrow>
     (\<forall>m b p. json_Marshal L m = (Some b, None) \<longrightarrow>
        (\<exists>err. decode b p = Inl err) \<or>
        decode b p = Inr (case prefix_key m of None \<Rightarrow> p | Some v \<Rightarrow> p\<lparr>Prefix := v\<rparr>))"

lemma load_module_Prefix:
  "decode raw (module_New CaddyModule) = Inr m \<Longrightarrow>
   load_module decode CaddyModule raw = Inr \<lparr>Prefix = (if Prefix m = [] then ''.'' else Prefix m), logger = Some []\<rparr>"
  by (simp add: load_module_def Validate_def Provision_def)

text \<open>
  C21: A module configured in TOML restricts what the configuration says.  If the text parses, can be
  encoded and is accepted by Caddy's decoder, the module that Caddy loads answers 404 exactly to the
  paths of which some part starts with the configured prefix, \<open>.\<close> if there is none or it is empty,
  and leaves every other request to the next handler; each refusal is logged.  An error of the
  parser, the encoder or the decoder is returned, and no module is loaded.
\<close>

theorem toml_config_restricts:
  assumes "json_law L decode prefix_key"
  shows "(case LoadBytes L body of
      Inl err \<Rightarrow> Adapt L body opts = (None, [], Some err) \<and> load_toml L decode body = Inl err
    | Inr tree \<Rightarrow>
        (\<forall>b err. json_Marshal L (ToMap L tree) = (b, Some err) \<longrightarrow> load_toml L decode body = Inl err) \<and>
        (\<forall>b err. json_Marshal L (ToMap L tree) = (Some b, None) \<longrightarrow>
           decode b (module_New CaddyModule) = Inl err \<longrightarrow> load_toml L decode body = Inl err) \<and>
        (\<forall>b m. json_Marshal L (ToMap L tree) = (Some b, None) \<longrightarrow>
           decode b (module_New CaddyModule) = Inr m \<longrightarrow>
           (\<exists>p. load_toml L decode body = Inr p \<and>
              (let pre = (case prefix_key (ToMap L tree) of None \<Rightarrow> ''.'' | Some v \<Rightarrow> if v = [] then ''.'' else v);
                   (p', r', w', e) = caddy_ServeHTTP quote next_handler p r w in
               if \<exists>part\<in>set (split_on CHR ''/'' (url_path r)). prefix pre part
               then r' = r \<and> w' = http_Error w ''Not Found'' 404 \<and> e = None \<and> (\<exists>l. logger p' = Some [l])
               else p' = p \<and> (r', w', e) = next_handler r w))))"
proof (cases "LoadBytes L body")
  case (Inl err)
  then show ?thesis by (simp add: Adapt_def load_toml_def)
next
  case (Inr tree)
  let ?m = "ToMap L tree"
  let ?pre = "case prefix_key ?m of None \<Rightarrow> ''.'' | Some v \<Rightarrow> if v = [] then ''.'' else v"
  have "load_toml L decode body = Inl err" if "json_Marshal L ?m = (b, Some err)" for b err
    using that Inr by (simp add: load_toml_def Adapt_def)
  moreover have "load_toml L decode body = Inl err"
    if "json_Marshal L ?m = (Some b, None)" "decode b (module_New CaddyModule) = Inl err" for b err
    using that Inr by (simp add: load_toml_def load_module_def Adapt_def)
  moreover have "\<exists>p. load_toml L decode body = Inr p \<and>
      (let (p', r', w', e) = caddy_ServeHTTP quote next_handler p r w in
       if \<exists>part\<in>set (split_on CHR ''/'' (url_path r)). prefix ?pre part
       then r' = r \<and> w' = http_Error w ''Not Found'' 404 \<and> e = None \<and> (\<exists>l. logger p' = Some [l])
       else p' = p \<and> (r', w', e) = next_handler r w)"
    if b: "json_Marshal L ?m = (Some b, None)" and m: "decode b (module_New CaddyModule) = Inr m" for b m
  proof -
    let ?p = "\<lparr>Prefix = ?pre, logger = Some []\<rparr>"
    have "m = (case prefix_key ?m of None \<Rightarrow> module_New CaddyModule | Some v \<Rightarrow> (module_New CaddyModule)\<lparr>Prefix := v\<rparr>)"
      using assms b m unfolding json_law_def by (metis Inl_Inr_False sum.inject(2))
    then have "(if Prefix m = [] then ''.'' else Prefix m) = ?pre"
      by (auto simp: CaddyModule_def split: option.splits)
    then have load: "load_toml L decode body = Inr ?p"
      using load_module_Prefix [where decode = decode and raw = b, OF m] Inr b by (simp add: load_toml_def Adapt_def)
    have "caddy_ServeHTTP quote next_handler ?p r w =
        (case restricted_part ?pre (split_on CHR ''/'' (url_path r)) of
           Some part \<Rightarrow> (?p\<lparr>logger := Some [''restricted prefix: '' @ quote part @ '' in '' @ url_path r]\<rparr>, r,
             http_Error w ''Not Found'' 404, None)
         | None \<Rightarrow> (?p, next_handler r w))"
      by (simp add: caddy_ServeHTTP_def split: option.split)
    then show ?thesis
      using load restricted_part_None [of ?pre "split_on CHR ''/'' (url_path r)"]
      by (cases "restricted_part ?pre (split_on CHR ''/'' (url_path r))"; cases "next_handler r w") auto
  qed
  ultimately show ?thesis using Inr by (simp add: Let_def)
qed

text \<open>
  A parser and an encoder for a configuration that is nothing but the prefix, and a decoder that
  refuses the empty one.
\<close>

definition plain_toml :: "(string, string) toml_lib" where
  "plain_toml = \<lparr>LoadBytes = (\<lambda>b. Inr (of_bytes b)), ToMap = (\<lambda>t. t), json_Marshal = (\<lambda>m. (Some (to_bytes m), None))\<rparr>"

definition plain_decode :: "byte list \<Rightarrow> caddy_module \<Rightarrow> caddy_module result" where
  "plain_decode b p = (if b = [] then Inl UnexpectedEOF else Inr (p\<lparr>Prefix := of_bytes b\<rparr>))"

theorem toml_config_restricts_witness:
  "(\<exists>p. load_toml plain_toml plain_decode (to_bytes ''_'') = Inr p \<and>
    fst (snd (snd (caddy_ServeHTTP id (\<lambda>r w. (r, w, None)) p (get_request ''/a/_b'') new_response))) =
      http_Error new_response ''Not Found'' 404) \<and>
   load_toml plain_toml plain_decode [] = Inl UnexpectedEOF"
proof (rule conjI)
  have law: "json_law plain_toml plain_decode Some" by (simp add: json_law_def plain_toml_def plain_decode_def)
  show "load_toml plain_toml plain_decode [] = Inl UnexpectedEOF"
    using toml_config_restricts [OF law, of "[]" "()"] by (simp add: plain_toml_def plain_decode_def)
  note th = toml_config_restricts [OF law, of "to_bytes ''_''" "()" id "\<lambda>r w. (r, w, None)" "get_request ''/a/_b''" new_response]
  have "split_on CHR ''/'' (url_path (get_request ''/a/_b'')) = [[], ''a'', ''_b'']" by code_simp
  with th show "\<exists>p. load_toml plain_toml plain_decode (to_bytes ''_'') = Inr p \<and>
    fst (snd (snd (caddy_ServeHTTP id (\<lambda>r w. (r, w, None)) p (get_request ''/a/_b'') new_response))) =
      http_Error new_response ''Not Found'' 404"
    by (simp add: plain_toml_def plain_decode_def Let_def case_prod_beta del: to_bytes_simps) fastforce
qed

end
