(* ===== verification/Wide.thy ===== *)
theory Wide
  imports GoHTTP
begin

text \<open>
  Chapter13/wide.go: the response writer that remembers status and length, and the handler
  \<open>WideEventLog\<close> that logs one wide event per request.  The wrapped handler is a program of calls of
  the writer's three methods, which returns; what it does next may depend on what \<open>Write\<close> returned.
  A handler that asks the writer for another interface (a flusher, a pusher) is not such a program:
  the wide writer has no other.  The logger is the list of events it was given; \<open>split\<close> is
  \<open>net.SplitHostPort\<close>, of which the code uses the host only.
\<close>

record wideResponseWriter =
  inner :: response
  wide_length :: nat
  wide_status :: nat

definition wide_WriteHeader :: "nat \<Rightarrow> wideResponseWriter \<Rightarrow> wideResponseWriter" where
  "wide_WriteHeader code w = (let w = w\<lparr>inner := WriteHeader code (inner w)\<rparr> in w\<lparr>wide_status := code\<rparr>)"

definition wide_Write :: "byte list \<Rightarrow> wideResponseWriter \<Rightarrow> wideResponseWriter \<times> nat \<times> go_error option" where
  "wide_Write b w =
     (let (r, n, err) = Write b (inner w);
          w = w\<lparr>inner := r, wide_length := wide_length w + n\<rparr>;
          w = (if wide_status w = 0 then w\<lparr>wide_status := 200\<rparr> else w) in
      (w, n, err))"

text \<open>\<open>Header\<close> is promoted from the embedded writer.\<close>

fun wide_do :: "rw_call \<Rightarrow> wideResponseWriter \<Rightarrow> wideResponseWriter" where
  "wide_do (CallWriteHeader code) w = wide_WriteHeader code w"
| "wide_do (CallWrite b) w = fst (wide_Write b w)"
| "wide_do (CallSet k v) w = w\<lparr>inner := Header_Set k v (inner w)\<rparr>"

text \<open>What a call returns: the count and the error of \<open>Write\<close>.\<close>

fun wide_result :: "rw_call \<Rightarrow> wideResponseWriter \<Rightarrow> nat \<times> go_error option" where
  "wide_result (CallWrite b) w = snd (wide_Write b w)"
| "wide_result _ w = (0, None)"

fun rw_result :: "rw_call \<Rightarrow> response \<Rightarrow> nat \<times> go_error option" where
  "rw_result (CallWrite b) w = snd (Write b w)"
| "rw_result _ w = (0, None)"

text \<open>A handler's program, run on a writer, and the calls it makes then.\<close>

datatype rw_prog = Return | Do rw_call "nat \<times> go_error option \<Rightarrow> rw_prog"

primrec rw_exec ::
  "(rw_call \<Rightarrow> 'w \<Rightarrow> 'w) \<Rightarrow> (rw_call \<Rightarrow> 'w \<Rightarrow> nat \<times> go_error option) \<Rightarrow> rw_prog \<Rightarrow> 'w \<Rightarrow> 'w" where
  "rw_exec call res Return w = w"
| "rw_exec call res (Do c k) w = rw_exec call res (k (res c w)) (call c w)"

primrec rw_calls ::
  "(rw_call \<Rightarrow> 'w \<Rightarrow> 'w) \<Rightarrow> (rw_call \<Rightarrow> 'w \<Rightarrow> nat \<times> go_error option) \<Rightarrow> rw_prog \<Rightarrow> 'w \<Rightarrow> rw_call list" where
  "rw_calls call res Return w = []"
| "rw_calls call res (Do c k) w = c # rw_calls call res (k (res c w)) (call c w)"

record wide_request = request +
  RemoteAddr :: string
  ContentLength :: int
  Proto :: string
  RequestURI :: string
  user_agent :: string

record wide_event =
  ev_status_code :: nat
  ev_response_length :: nat
  ev_content_length :: int
  ev_method :: string
  ev_proto :: string
  ev_remote_addr :: string
  ev_uri :: string
  ev_user_agent :: string

definition WideEventLog ::
  "(string \<Rightarrow> string) \<Rightarrow> (wide_request \<Rightarrow> rw_prog) \<Rightarrow> wide_request \<Rightarrow>
   response \<times> wide_event list \<Rightarrow> response \<times> wide_event list" where
  "WideEventLog split next_handler r s =
     (case s of (w, log) \<Rightarrow>
        let wideWriter = rw_exec wide_do wide_result (next_handler r) \<lparr>inner = w, wide_length = 0, wide_status = 0\<rparr>;
            addr = split (RemoteAddr r) in
        (inner wideWriter,
         log @ [\<lparr>ev_status_code = wide_status wideWriter, ev_response_length = wide_length wideWriter,
                ev_content_length = ContentLength r, ev_method = Method r, ev_proto = Proto r,
                ev_remote_addr = addr, ev_uri = RequestURI r, ev_user_agent = user_agent r\<rparr>]))"

subsection \<open>The wrapped writer behaves like the one it wraps\<close>

lemma inner_wide_do [simp]: "inner (wide_do c w) = rw_do c (inner w)"
  by (cases c) (auto simp: wide_WriteHeader_def wide_Write_def Let_def split: prod.splits)

lemma inner_run [simp]: "inner (rw_run wide_do cs w) = rw_run rw_do cs (inner w)"
  by (induction cs arbitrary: w) simp_all

interpretation wide: response_writer wide_do "\<lambda>w. status (inner w)"
  by unfold_locales (simp_all add: base.call_keeps base.call_sets)

lemma wide_result_inner: "wide_result c w = rw_result c (inner w)"
  by (cases c) (simp_all add: wide_Write_def Let_def case_prod_beta)

lemma rw_exec_run: "rw_exec call res p w = rw_run call (rw_calls call res p w) w"
  by (induction p arbitrary: w) auto

lemma wide_calls: "rw_calls wide_do wide_result p w = rw_calls rw_do rw_result p (inner w)"
  by (induction p arbitrary: w) (auto simp: wide_result_inner)

lemma inner_exec [simp]: "inner (rw_exec wide_do wide_result p w) = rw_exec rw_do rw_result p (inner w)"
  by (simp add: rw_exec_run wide_calls)

text \<open>The handler settles the status once, and before or with its first \<open>Write\<close>.\<close>

fun no_WriteHeader :: "rw_call list \<Rightarrow> bool" where
  "no_WriteHeader [] \<longleftrightarrow> True"
| "no_WriteHeader (CallWriteHeader code # cs) \<longleftrightarrow> False"
| "no_WriteHeader (c # cs) \<longleftrightarrow> no_WriteHeader cs"

fun orderly :: "rw_call list \<Rightarrow> bool" where
  "orderly [] \<longleftrightarrow> False"
| "orderly (CallWriteHeader code # cs) \<longleftrightarrow> final_status code \<and> no_WriteHeader cs"
| "orderly (CallWrite b # cs) \<longleftrightarrow> no_WriteHeader cs"
| "orderly (CallSet k v # cs) \<longleftrightarrow> orderly cs"

lemma wide_status_keeps:
  "no_WriteHeader cs \<Longrightarrow> wide_status w \<noteq> 0 \<Longrightarrow> wide_status (rw_run wide_do cs w) = wide_status w"
  by (induction cs arbitrary: w rule: no_WriteHeader.induct)
    (auto simp: wide_Write_def Let_def split: prod.splits)

lemma wide_status_orderly:
  "orderly cs \<Longrightarrow> wide_status w = 0 \<Longrightarrow> first_status cs = Some (wide_status (rw_run wide_do cs w))"
proof (induction cs arbitrary: w rule: orderly.induct)
  case (2 code cs)
  then have "code \<noteq> 0" by (auto simp: final_status_def)
  then show ?case using 2 wide_status_keeps [of cs "wide_do (CallWriteHeader code) w"]
    by (simp add: wide_WriteHeader_def)
next
  case (3 b cs)
  have "wide_status (wide_do (CallWrite b) w) = 200"
    using 3 by (auto simp: wide_Write_def Let_def split: prod.splits)
  then show ?case using 3 wide_status_keeps [of cs "wide_do (CallWrite b) w"] by simp
next
  case (4 k v cs)
  then show ?case using 4(1) [of "wide_do (CallSet k v) w"] by simp
qed simp

lemma length_Write:
  "\<not> head_method w \<Longrightarrow>
    length (accepted (sink (fst (Write b w)))) = length (accepted (sink w)) + fst (snd (Write b w)) \<and>
    head_method (fst (Write b w)) = head_method w"
  using wr_write_accepted [of b "sink w"] by (auto simp: Write_def Let_def split: prod.splits)

lemma wide_length_run:
  "\<not> head_method (inner w) \<Longrightarrow>
    length (accepted (sink (inner (rw_run wide_do cs w)))) + wide_length w =
    length (accepted (sink (inner w))) + wide_length (rw_run wide_do cs w)"
proof (induction cs arbitrary: w)
  case Nil
  then show ?case by simp
next
  case (Cons c cs)
  let ?w = "wide_do c w"
  have "length (accepted (sink (inner ?w))) + wide_length w = length (accepted (sink (inner w))) + wide_length ?w"
    using length_Write [OF Cons.prems]
    by (cases c) (auto simp: wide_WriteHeader_def wide_Write_def prod.case_eq_if Let_def)
  moreover have "\<not> head_method (inner ?w)"
    unfolding inner_wide_do using Cons.prems length_Write [OF Cons.prems] by (cases c) auto
  ultimately show ?case using Cons.IH [of ?w] by simp
qed

fun header_call :: "rw_call \<Rightarrow> bool" where
  "header_call (CallSet k v) \<longleftrightarrow> True"
| "header_call _ \<longleftrightarrow> False"

lemma wide_status_headers: "list_all header_call cs \<Longrightarrow> wide_status (rw_run wide_do cs w) = wide_status w"
proof (induction cs arbitrary: w)
  case (Cons c cs)
  then show ?case by (cases c) simp_all
qed simp

lemma first_status_headers: "list_all header_call cs \<Longrightarrow> first_status cs = None"
proof (induction cs)
  case (Cons c cs)
  then show ?case by (cases c) simp_all
qed simp

text \<open>
  C32: Logging is transparent: with a writer on which nothing has been sent, and unless the request is
  a HEAD request, the client gets the response the handler would have produced without it, and
  exactly one event is logged, with the content length, the method, the protocol, the address, the
  URI and the user agent of the request.  The logged length is the number of body bytes the writer
  took, even when a write failed in the middle.  The logged status is the one sent if the handler
  settles it exactly once and before or with its first write; a handler that only sets headers, or
  does nothing, is logged with status 0 while the client gets 200.
\<close>

theorem wide_event_faithful:
  assumes "status w = None" and "\<not> head_method w"
  shows "\<exists>st len. WideEventLog split next_handler r (w, log) =
      (rw_exec rw_do rw_result (next_handler r) w,
       log @ [\<lparr>ev_status_code = st, ev_response_length = len, ev_content_length = ContentLength r,
              ev_method = Method r, ev_proto = Proto r, ev_remote_addr = split (RemoteAddr r),
              ev_uri = RequestURI r, ev_user_agent = user_agent r\<rparr>]) \<and>
    length (accepted (sink (rw_exec rw_do rw_result (next_handler r) w))) = length (accepted (sink w)) + len \<and>
    (orderly (rw_calls rw_do rw_result (next_handler r) w) \<longrightarrow>
       status (finish (rw_exec rw_do rw_result (next_handler r) w)) = Some st) \<and>
    (list_all header_call (rw_calls rw_do rw_result (next_handler r) w) \<longrightarrow>
       st = 0 \<and> status (finish (rw_exec rw_do rw_result (next_handler r) w)) = Some 200)"
proof -
  let ?w0 = "\<lparr>inner = w, wide_length = 0, wide_status = 0\<rparr>"
  let ?cs = "rw_calls rw_do rw_result (next_handler r) w"
  let ?w1 = "rw_run wide_do ?cs ?w0"
  have "length (accepted (sink (rw_run rw_do ?cs w))) = length (accepted (sink w)) + wide_length ?w1"
    using wide_length_run [of ?w0 ?cs] assms(2) by simp
  moreover have "status (finish (rw_run rw_do ?cs w)) = Some (wide_status ?w1)" if "orderly ?cs"
    using wide_status_orderly [OF that, of ?w0] base.run_status [of ?cs w] assms(1)
    by (simp add: finish_def status_WriteHeader)
  moreover have "wide_status ?w1 = 0 \<and> status (finish (rw_run rw_do ?cs w)) = Some 200" if "list_all header_call ?cs"
    using wide_status_headers [OF that, of ?w0] first_status_headers [OF that] base.run_status [of ?cs w] assms(1)
    by (simp add: finish_def status_WriteHeader)
  ultimately show ?thesis by (simp add: WideEventLog_def Let_def rw_exec_run wide_calls)
qed

definition sample_wide_request :: wide_request where
  "sample_wide_request =
     \<lparr>Method = ''GET'', url_path = ''/test'', RawPath = [], Body = bytes_reader [], body_closed = False,
      RemoteAddr = ''127.0.0.1:5'', ContentLength = 0, Proto = ''HTTP/1.1'', RequestURI = ''/test'',
      user_agent = ''curl''\<rparr>"

definition host_of :: "string \<Rightarrow> string" where
  "host_of a = takeWhile (\<lambda>c. c \<noteq> CHR '':'') a"

text \<open>A handler that writes what is left when the first write was cut short.\<close>

definition insistent :: "wide_request \<Rightarrow> rw_prog" where
  "insistent r = Do (CallWrite (to_bytes ''Hello!''))
     (\<lambda>(n, err). if err = None then Return else Do (CallWrite (drop n (to_bytes ''Hello!''))) (\<lambda>_. Return))"

theorem wide_event_faithful_witness:
  "(let w = new_response\<lparr>sink := new_writer\<lparr>script := [Some (2, Timeout)]\<rparr>\<rparr>;
        (w', log) = WideEventLog host_of insistent sample_wide_request (w, []) in
    body_text w' = ''Hello!'' \<and> map ev_status_code log = [200] \<and> map ev_response_length log = [6] \<and>
    map ev_remote_addr log = [''127.0.0.1''] \<and> map ev_user_agent log = [''curl'']) \<and>
   map ev_status_code (snd (WideEventLog host_of (\<lambda>_. Return) sample_wide_request (new_response, []))) = [0]"
proof (rule conjI)
  let ?w = "new_response\<lparr>sink := new_writer\<lparr>script := [Some (2, Timeout)]\<rparr>\<rparr>"
  let ?p = "insistent sample_wide_request"
  have w: "status ?w = None" "\<not> head_method ?w" "status new_response = None" "\<not> head_method new_response"
    by (simp_all add: new_response_def status_def)
  have c: "orderly (rw_calls rw_do rw_result ?p ?w)" "body_text (rw_exec rw_do rw_result ?p ?w) = ''Hello!''"
    "status (finish (rw_exec rw_do rw_result ?p ?w)) = Some 200" "length (accepted (sink (rw_exec rw_do rw_result ?p ?w))) = 6"
    "length (accepted (sink ?w)) = 0" "host_of (RemoteAddr sample_wide_request) = ''127.0.0.1''"
    "user_agent sample_wide_request = ''curl''"
    by code_simp+
  show "let w = ?w; (w', log) = WideEventLog host_of insistent sample_wide_request (w, []) in
    body_text w' = ''Hello!'' \<and> map ev_status_code log = [200] \<and> map ev_response_length log = [6] \<and>
    map ev_remote_addr log = [''127.0.0.1''] \<and> map ev_user_agent log = [''curl'']"
    using wide_event_faithful [OF w(1,2), of host_of insistent sample_wide_request "[]"] c by auto
  show "map ev_status_code (snd (WideEventLog host_of (\<lambda>_. Return) sample_wide_request (new_response, []))) = [0]"
    using wide_event_faithful [OF w(3,4), of host_of "\<lambda>_. Return" sample_wide_request "[]"] by auto
qed

text \<open>
  The logged status is that of the last \<open>WriteHeader\<close> call, not of the response: when the handler
  calls \<open>WriteHeader\<close> twice the client gets the first status and the event shows the second.
\<close>

theorem wide_event_wrong_status:
  assumes "status w = None" and "final_status a"
    and "rw_calls rw_do rw_result (next_handler r) w = CallWriteHeader a # cs @ [CallWriteHeader b]"
  shows "status (fst (WideEventLog split next_handler r (w, log))) = Some a \<and>
    ev_status_code (last (snd (WideEventLog split next_handler r (w, log)))) = b"
proof -
  have "status (rw_exec rw_do rw_result (next_handler r) w) = Some a"
    using base.run_status [of "rw_calls rw_do rw_result (next_handler r) w" w] assms by (simp add: rw_exec_run)
  moreover have "wide_status (rw_exec wide_do wide_result (next_handler r) \<lparr>inner = w, wide_length = l, wide_status = s\<rparr>) = b"
    for l s
    by (simp add: rw_exec_run wide_calls assms(3) rw_run_append wide_WriteHeader_def)
  ultimately show ?thesis by (simp add: WideEventLog_def Let_def)
qed

theorem wide_event_wrong_status_witness:
  "ev_status_code (last (snd (WideEventLog host_of (\<lambda>r. Do (CallWriteHeader 404) (\<lambda>_. Do (CallWriteHeader 500) (\<lambda>_. Return)))
      sample_wide_request (new_response, [])))) = 500"
  using wide_event_wrong_status [of new_response 404
      "\<lambda>r. Do (CallWriteHeader 404) (\<lambda>_. Do (CallWriteHeader 500) (\<lambda>_. Return))"
      sample_wide_request "[]" 500 host_of "[]"]
  by (simp add: new_response_def status_def)

subsection \<open>The example\<close>

text \<open>
  \<open>Example_wideLogEntry\<close>: a test server whose handler writes six bytes, and one \<open>http.Get\<close>.  \<open>get\<close> is
  the request as the server receives it, or the error of \<open>Get\<close>, which the logger reports as fatal.
\<close>

definition wide_handler :: "wide_request \<Rightarrow> rw_prog" where
  "wide_handler r = Do (CallWrite (to_bytes ''Hello!'')) (\<lambda>_. Return)"

definition Example_wideLogEntry ::
  "(string \<Rightarrow> string) \<Rightarrow> wide_request result \<Rightarrow> response \<times> wide_event list \<times> go_error option" where
  "Example_wideLogEntry split get =
     (case get of
        Inl err \<Rightarrow> (new_response, [], Some err)
      | Inr r \<Rightarrow> (case WideEventLog split wide_handler r (new_response, []) of (w, log) \<Rightarrow> (w, log, None)))"

text \<open>The event of the comment.\<close>

lemma wide_example_event:
  assumes "Method r = ''GET''" "ContentLength r = 0" "Proto r = ''HTTP/1.1''" "RequestURI r = ''/test''"
    "user_agent r = ''Go-http-client/1.1''" "split (RemoteAddr r) = ''127.0.0.1''"
  shows "snd (Example_wideLogEntry split (Inr r)) =
    ([\<lparr>ev_status_code = 200, ev_response_length = 6, ev_content_length = 0, ev_method = ''GET'',
       ev_proto = ''HTTP/1.1'', ev_remote_addr = ''127.0.0.1'', ev_uri = ''/test'',
       ev_user_agent = ''Go-http-client/1.1''\<rparr>], None)"
proof -
  have "fst (snd (Write (to_bytes ''Hello!'') new_response)) = 6" by code_simp
  then show ?thesis
    using assms
    by (simp add: Example_wideLogEntry_def WideEventLog_def wide_handler_def wide_Write_def Let_def
        case_prod_beta del: to_bytes_simps)
qed

end
