(* ===== verification/Writers.thy ===== *)
theory Writers
  imports GoIO GoStrings
begin

text \<open>
  Readers and writers put together: \<open>io.Copy\<close>, the writer of chapter13/multi.go that keeps writing
  to the others when one fails, the proxies of chapter4/proxy.go, and the loggers of
  chapter13/level.go and multi.go.

  Writers that are shared by reference are numbers into a store of writers.  \<open>multierr.Append\<close> is a
  parameter; \<open>multierr_law\<close> is what it documents.
\<close>

subsection \<open>io.Copy\<close>

definition errInvalidWrite :: go_error where
  "errInvalidWrite = ErrText ''invalid write result''"

definition ErrShortWrite :: go_error where
  "ErrShortWrite = ErrText ''short write''"

type_synonym 's write_fun = "byte list \<Rightarrow> 's \<Rightarrow> 's \<times> nat \<times> go_error option"

text \<open>How much a reader still has to deliver: it decreases with every \<open>Read\<close> of a positive size.\<close>

definition remaining :: "reader \<Rightarrow> nat" where
  "remaining r = length (chunks r) + length (stream r)"

lemma rd_read_remaining:
  "rd_read n r = (r', p, None) \<Longrightarrow> 0 < n \<Longrightarrow> remaining r' < remaining r"
  by (auto simp: rd_read_def remaining_def stream_def split: list.splits if_splits)

text \<open>What one pass of the loop does with a piece that was read: the write and its checks.\<close>

definition copy_write :: "'s write_fun \<Rightarrow> byte list \<Rightarrow> 's \<Rightarrow> 's \<times> nat \<times> go_error option" where
  "copy_write wr p s =
     (if p = [] then (s, 0, None)
      else (case wr p s of
              (s, nw, ew) \<Rightarrow>
                let (nw, ew) = (if length p < nw then (0, if ew = None then Some errInvalidWrite else ew)
                                else (nw, ew)) in
                (s, nw, if ew \<noteq> None then ew
                        else if length p \<noteq> nw then Some ErrShortWrite else None)))"

function io_copy :: "'s write_fun \<Rightarrow> reader \<Rightarrow> 's \<Rightarrow> nat \<Rightarrow> reader \<times> 's \<times> nat \<times> go_error option" where
  "io_copy wr r s written =
     (case rd_read 32768 r of
        (r', p, er) \<Rightarrow>
          (case copy_write wr p s of
             (s, nw, Some ew) \<Rightarrow> (r', s, written + nw, Some ew)
           | (s, nw, None) \<Rightarrow>
               (case er of
                  None \<Rightarrow> io_copy wr r' s (written + nw)
                | Some e \<Rightarrow> (r', s, written + nw, if e = EOF then None else Some e))))"
  by pat_completeness auto
termination
  by (relation "measure (\<lambda>(wr, r, s, written). remaining r)") (auto intro: rd_read_remaining [OF sym])

declare io_copy.simps [simp del]

lemma copy_write_wr:
  assumes "copy_write wr_write p w = (w', n, e)"
  shows "\<exists>k \<le> length p. accepted w' = accepted w @ take k p \<and> (e = None \<longrightarrow> k = length p \<and> n = k)"
proof (cases "p = []")
  case True
  then show ?thesis using assms by (simp add: copy_write_def)
next
  case False
  obtain w1 k e1 where w1: "wr_write p w = (w1, k, e1)" by (metis prod_cases3)
  then have k: "k \<le> length p" "accepted w1 = accepted w @ take k p"
    using wr_write_accepted [of p w] by auto
  then have "w' = w1" "n = k" "e = None \<longrightarrow> k = length p"
    using assms False w1 by (auto simp: copy_write_def Let_def split: if_splits)
  with k show ?thesis by auto
qed

text \<open>What a copy has delivered is always a prefix of the stream, and all of it if there is no error.\<close>

lemma io_copy_prefix:
  assumes "io_copy wr_write r w written = (r', w', n, e)"
  shows "\<exists>k \<le> length (stream r). accepted w' = accepted w @ take k (stream r) \<and>
    (e = None \<longrightarrow> k = length (stream r) \<and> n = written + k \<and> fin r = EOF)"
  using assms
proof (induction wr_write r w written arbitrary: r' w' n e rule: io_copy.induct)
  case (1 r s written)
  obtain r1 p er where rd: "rd_read 32768 r = (r1, p, er)" by (metis prod_cases3)
  obtain s1 nw ew where cw: "copy_write wr_write p s = (s1, nw, ew)" by (metis prod_cases3)
  obtain k where k: "k \<le> length p" "accepted s1 = accepted s @ take k p" "ew = None \<longrightarrow> k = length p \<and> nw = k"
    using copy_write_wr [OF cw] by auto
  have str: "stream r = p @ stream r1" "fin r1 = fin r"
    using stream_rd_read [of r 32768] rd by (auto simp: rd_read_def split: list.splits)
  show ?case
  proof (cases ew)
    case (Some x)
    then show ?thesis
      using 1(2) rd cw k str by (subst (asm) io_copy.simps) (auto intro!: exI [of _ k])
  next
    case ew: None
    show ?thesis
    proof (cases er)
      case (Some x)
      then have "stream r1 = []" "x = fin r" "p = []"
        using rd by (auto simp: rd_read_def stream_def split: list.splits)
      then show ?thesis
        using 1(2) rd cw k str ew Some by (subst (asm) io_copy.simps) (auto split: if_splits)
    next
      case None
      then have "io_copy wr_write r1 s1 (written + nw) = (r', w', n, e)"
        using 1(2) rd cw ew by (subst (asm) io_copy.simps) simp
      from 1(1) [OF rd [symmetric] refl cw [symmetric] refl ew None this] obtain j where
        "j \<le> length (stream r1)" "accepted w' = accepted s1 @ take j (stream r1)"
        "e = None \<longrightarrow> j = length (stream r1) \<and> n = written + nw + j \<and> fin r1 = EOF" by auto
      then show ?thesis using k ew str by (intro exI [of _ "length p + j"]) auto
    qed
  qed
qed


subsection \<open>The sustained multi-writer\<close>

type_synonym ref = nat

type_synonym writer_store = "ref \<Rightarrow> writer"

datatype io_writer = PlainWriter ref | sustainedMultiWriter "ref list"

definition multierr_law :: "(go_error option \<Rightarrow> go_error option \<Rightarrow> go_error option) \<Rightarrow> bool" where
  "multierr_law app \<longleftrightarrow>
     (\<forall>e. app None e = e \<and> app e None = e) \<and> (\<forall>a b. app (Some a) (Some b) \<noteq> None)"

text \<open>The loop of \<open>Write\<close>, with the results \<open>n\<close> and \<open>err\<close> so far.\<close>

fun multi_loop ::
  "(go_error option \<Rightarrow> go_error option \<Rightarrow> go_error option) \<Rightarrow> byte list \<Rightarrow> ref list \<Rightarrow>
   writer_store \<times> nat \<times> go_error option \<Rightarrow> writer_store \<times> nat \<times> go_error option" where
  "multi_loop app p [] st = st"
| "multi_loop app p (w # ws) (S, n, err) =
     (case wr_write p (S w) of
        (w', i, wErr) \<Rightarrow> multi_loop app p ws (S(w := w'), n + i, app err wErr))"

definition multi_Write ::
  "(go_error option \<Rightarrow> go_error option \<Rightarrow> go_error option) \<Rightarrow> ref list \<Rightarrow> writer_store write_fun" where
  "multi_Write app writers p S = multi_loop app p writers (S, 0, None)"

text \<open>The constructor takes the writers of a multi-writer out of it, so multi-writers never nest.\<close>

fun refs_of :: "io_writer \<Rightarrow> ref list" where
  "refs_of (PlainWriter w) = [w]"
| "refs_of (sustainedMultiWriter ws) = ws"

fun flatten_loop :: "ref list \<Rightarrow> io_writer list \<Rightarrow> ref list" where
  "flatten_loop acc [] = acc"
| "flatten_loop acc (sustainedMultiWriter m # ws) = flatten_loop (acc @ m) ws"
| "flatten_loop acc (PlainWriter w # ws) = flatten_loop (acc @ [w]) ws"

definition SustainedMultiWriter :: "io_writer list \<Rightarrow> io_writer" where
  "SustainedMultiWriter writers = sustainedMultiWriter (flatten_loop [] writers)"

lemma flatten_loop_refs: "flatten_loop acc ws = acc @ concat (map refs_of ws)"
  by (induction acc ws rule: flatten_loop.induct) simp_all

text \<open>
  What a writer is after the data has been written to it, and the outcome of the \<open>i\<close>-th write of the
  loop: a writer that stands in the list more than once has then been written to as often as it
  stands before that place.
\<close>

definition written_to :: "byte list \<Rightarrow> writer \<Rightarrow> writer" where
  "written_to p w = fst (wr_write p w)"

definition write_outcome :: "byte list \<Rightarrow> ref list \<Rightarrow> writer_store \<Rightarrow> nat \<Rightarrow> writer \<times> nat \<times> go_error option" where
  "write_outcome p rs S i = wr_write p ((written_to p ^^ count_list (take i rs) (rs ! i)) (S (rs ! i)))"

lemma multi_loop_append:
  "multi_loop app p (rs @ [w]) st =
    (case multi_loop app p rs st of (S, n, err) \<Rightarrow>
       (case wr_write p (S w) of (w', i, wErr) \<Rightarrow> (S(w := w'), n + i, app err wErr)))"
  by (induction app p rs st rule: multi_loop.induct) (auto split: prod.splits)

lemma write_outcome_snoc:
  "i < length rs \<Longrightarrow> write_outcome p (rs @ [w]) S i = write_outcome p rs S i"
  "write_outcome p (rs @ [w]) S (length rs) = wr_write p ((written_to p ^^ count_list rs w) (S w))"
  by (simp_all add: write_outcome_def nth_append)

lemma multi_Write_results:
  "multi_Write app rs p S =
    (\<lambda>w. (written_to p ^^ count_list rs w) (S w),
     \<Sum>i<length rs. fst (snd (write_outcome p rs S i)),
     foldl app None (map (\<lambda>i. snd (snd (write_outcome p rs S i))) [0..<length rs]))"
  unfolding multi_Write_def
proof (induction rs rule: rev_induct)
  case Nil
  then show ?case by simp
next
  case (snoc w rs)
  obtain w' i e where W: "wr_write p ((written_to p ^^ count_list rs w) (S w)) = (w', i, e)"
    by (metis prod_cases3)
  have errs: "map (\<lambda>i. snd (snd (write_outcome p (rs @ [w]) S i))) [0..<length rs] =
      map (\<lambda>i. snd (snd (write_outcome p rs S i))) [0..<length rs]"
    by (simp add: write_outcome_snoc)
  have store: "(\<lambda>v. (written_to p ^^ count_list rs v) (S v))(w := w') =
      (\<lambda>v. (written_to p ^^ count_list (rs @ [w]) v) (S v))"
    using W by (auto simp: fun_eq_iff written_to_def)
  show ?case
    unfolding multi_loop_append snoc prod.case W store using W
    by (simp add: errs write_outcome_snoc)
qed

lemma multierr_None:
  assumes "multierr_law app"
  shows "foldl app e es = None \<longleftrightarrow> e = None \<and> (\<forall>x\<in>set es. x = None)"
proof (induction es arbitrary: e)
  case Nil
  then show ?case by simp
next
  case (Cons x es)
  have "app e x = None \<longleftrightarrow> e = None \<and> x = None"
    using assms by (cases e; cases x) (auto simp: multierr_law_def)
  then show ?case using Cons by auto
qed

lemma multi_Write_count:
  assumes "\<forall>i<length rs. snd (snd (write_outcome p rs S i)) = None"
  shows "(\<Sum>i<length rs. fst (snd (write_outcome p rs S i))) = length rs * length p"
proof -
  have "fst (snd (write_outcome p rs S i)) = length p" if "i < length rs" for i
    using assms that wr_write_ok [of p "(written_to p ^^ count_list (take i rs) (rs ! i)) (S (rs ! i))"]
    unfolding write_outcome_def by (metis prod.collapse)
  then show ?thesis by simp
qed

text \<open>
  C25: The writers of a multi-writer are those it was made of, in that order, nested multi-writers
  flattened in place.  A write reaches each of them as often as it is listed, also those after one
  that failed; the \<open>i\<close>-th write finds its writer as the earlier ones have left it.  The count
  returned is the sum over the writes, so when all succeed it is the number of writers times the
  length of the data.  The error is what \<open>multierr.Append\<close> makes of the errors of the writes, in the
  order of the writers, and there is one exactly when one of the writes failed.
\<close>

theorem multi_write_sustains:
  assumes "multierr_law app"
    and "SustainedMultiWriter ws = sustainedMultiWriter rs" and "multi_Write app rs p S = (S', n, err)"
  shows "rs = concat (map refs_of ws) \<and>
    (\<forall>w. S' w = ((\<lambda>x. fst (wr_write p x)) ^^ count_list rs w) (S w)) \<and>
    (let outcome = \<lambda>i. wr_write p (((\<lambda>x. fst (wr_write p x)) ^^ count_list (take i rs) (rs ! i)) (S (rs ! i))) in
     n = (\<Sum>i<length rs. fst (snd (outcome i))) \<and>
     err = foldl app None (map (\<lambda>i. snd (snd (outcome i))) [0..<length rs]) \<and>
     (err = None) = (\<forall>i<length rs. snd (snd (outcome i)) = None)) \<and>
    (err = None \<longrightarrow> n = length rs * length p)"
proof -
  have w: "(\<lambda>x. fst (wr_write p x)) = written_to p" by (simp add: fun_eq_iff written_to_def)
  have rs: "rs = concat (map refs_of ws)" using assms(2) by (simp add: SustainedMultiWriter_def flatten_loop_refs)
  have r: "S' = (\<lambda>w. (written_to p ^^ count_list rs w) (S w))"
    "n = (\<Sum>i<length rs. fst (snd (write_outcome p rs S i)))"
    "err = foldl app None (map (\<lambda>i. snd (snd (write_outcome p rs S i))) [0..<length rs])"
    using assms(3) multi_Write_results [of app rs p S] by simp_all
  then have e: "(err = None) = (\<forall>i<length rs. snd (snd (write_outcome p rs S i)) = None)"
    using multierr_None [OF assms(1)] by auto
  then show ?thesis
    using rs r multi_Write_count [of rs p S] by (simp add: w Let_def write_outcome_def)
qed

definition first_error :: "go_error option \<Rightarrow> go_error option \<Rightarrow> go_error option" where
  "first_error a b = (case a of None \<Rightarrow> b | Some e \<Rightarrow> Some e)"

lemma first_error_law: "multierr_law first_error"
  by (simp add: multierr_law_def first_error_def split: option.split)

theorem multi_write_sustains_witness:
  "let S = (\<lambda>w. new_writer)(1 := new_writer\<lparr>script := [Some (1, Timeout)]\<rparr>);
       (S', n, err) = multi_Write first_error [1, 2, 3] [104, 105] S in
   accepted (S' 1) = [104] \<and> accepted (S' 2) = [104, 105] \<and> accepted (S' 3) = [104, 105] \<and>
   err = Some Timeout \<and> n = 5"
proof -
  let ?S = "(\<lambda>w. new_writer)((1 :: nat) := new_writer\<lparr>script := [Some (1, Timeout)]\<rparr>)"
  obtain S' n err where m: "multi_Write first_error [1, 2, 3] [104, 105] ?S = (S', n, err)" by (metis prod_cases3)
  have c: "SustainedMultiWriter [PlainWriter 1, sustainedMultiWriter [2, 3]] = sustainedMultiWriter [1, 2, 3]"
    by (simp add: SustainedMultiWriter_def)
  show ?thesis
    using multi_write_sustains [OF first_error_law c m] m
    by (simp add: Let_def wr_write_def new_writer_def first_error_def numeral_nat)
qed

text \<open>
  The sum is more than \<open>io.Writer\<close> allows: \<open>io.Copy\<close> to a multi-writer over two or more writers
  stops after the first piece with \<open>invalid write result\<close>, although every writer took the piece.
\<close>

theorem copy_to_multi_writer_fails:
  assumes "distinct rs" and "multierr_law app" and "2 \<le> length rs"
    and "rd_read 32768 r = (r', p, er)" and "p \<noteq> []" and "\<forall>w \<in> set rs. script (S w) = []"
  shows "\<exists>S'. io_copy (multi_Write app rs) r S 0 = (r', S', 0, Some errInvalidWrite) \<and>
    (\<forall>w \<in> set rs. accepted (S' w) = accepted (S w) @ p)"
proof -
  obtain S' n err where m: "multi_Write app rs p S = (S', n, err)" by (metis prod_cases3)
  have once: "count_list rs w = 1" if "w \<in> set rs" for w
    using that assms(1) by (induction rs) auto
  have "count_list (take i rs) (rs ! i) = 0" if "i < length rs" for i
    using that assms(1) by (auto simp: count_list_0_iff in_set_conv_nth nth_eq_iff_index_eq)
  then have ok: "\<forall>i<length rs. snd (snd (write_outcome p rs S i)) = None"
    using assms(6) by (simp add: write_outcome_def)
  then have n: "err = None" "n = length rs * length p" "\<forall>w \<in> set rs. accepted (S' w) = accepted (S w) @ p"
    using m multi_Write_results [of app rs p S] multierr_None [OF assms(2)] multi_Write_count [OF ok] once assms(6)
    by (auto simp: written_to_def)
  have "2 * length p \<le> n" using n(2) mult_le_mono1 [OF assms(3), of "length p"] by (simp only:)
  moreover have "0 < length p" using assms(5) by simp
  ultimately have "length p < n" by linarith
  then have "copy_write (multi_Write app rs) p S = (S', 0, Some errInvalidWrite)"
    using m n(1) assms(5) by (simp add: copy_write_def Let_def)
  then show ?thesis using assms(4) n(3) by (subst io_copy.simps) simp
qed

theorem copy_to_multi_writer_fails_witness:
  "\<exists>S'. io_copy (multi_Write first_error [1, 2]) (bytes_reader [7, 8]) (\<lambda>w. new_writer) 0 =
      (bytes_reader [], S', 0, Some errInvalidWrite) \<and> accepted (S' 1) = [7, 8] \<and> accepted (S' 2) = [7, 8]"
proof -
  have "rd_read 32768 (bytes_reader [7, 8]) = (bytes_reader [], [7, 8], None)"
    by (simp add: rd_read_def bytes_reader_def)
  from copy_to_multi_writer_fails [OF _ first_error_law _ this, of "[1, 2]" "\<lambda>w. new_writer"]
  show ?thesis by (auto simp: new_writer_def)
qed

subsection \<open>The proxy\<close>

text \<open>
  A connection has a stream to read and a sink to write; \<open>tcp\<close> tells whether a value is a
  \<open>*net.TCPConn\<close>.  The reply direction runs in a goroutine of its own on the other halves of the two
  connections, so the order of its steps does not matter; the result shows it when it has ended.
\<close>

record endpoint =
  incoming :: reader
  outgoing :: writer
  tcp :: bool

definition proxy :: "endpoint \<Rightarrow> endpoint \<Rightarrow> endpoint \<times> endpoint \<times> go_error option" where
  "proxy from_end to_end =
     (let (from1, to1) =
        (if tcp from_end \<and> tcp to_end
         then (case io_copy wr_write (incoming to_end) (outgoing from_end) 0 of
                 (r, w, _, _) \<Rightarrow> (from_end\<lparr>outgoing := w\<rparr>, to_end\<lparr>incoming := r\<rparr>))
         else (from_end, to_end)) in
      case io_copy wr_write (incoming from1) (outgoing to1) 0 of
        (r, w, _, err) \<Rightarrow> (from1\<lparr>incoming := r\<rparr>, to1\<lparr>outgoing := w\<rparr>, err))"

text \<open>
  The proxy terminates for any two endpoints and changes nothing on the way: what it has passed on
  is a prefix of what the source sent, the whole of it when it reports no error; between two TCP
  connections the same holds in the other direction, and otherwise nothing flows back.
\<close>

theorem proxy_passes_on:
  assumes "proxy a b = (a', b', err)"
  shows "prefix (accepted (outgoing b')) (accepted (outgoing b) @ stream (incoming a)) \<and>
    prefix (accepted (outgoing b)) (accepted (outgoing b')) \<and>
    (err = None \<longrightarrow> accepted (outgoing b') = accepted (outgoing b) @ stream (incoming a)) \<and>
    (if tcp a \<and> tcp b
     then prefix (accepted (outgoing a')) (accepted (outgoing a) @ stream (incoming b)) \<and>
       prefix (accepted (outgoing a)) (accepted (outgoing a'))
     else outgoing a' = outgoing a)"
proof -
  obtain r1 w1 n1 e1 where reply: "io_copy wr_write (incoming b) (outgoing a) 0 = (r1, w1, n1, e1)"
    by (metis prod_cases4)
  obtain r2 w2 n2 e2 where forth: "io_copy wr_write (incoming a) (outgoing b) 0 = (r2, w2, n2, e2)"
    by (metis prod_cases4)
  note k1 = io_copy_prefix [OF reply] and k2 = io_copy_prefix [OF forth]
  have p: "prefix (x @ take k s) (x @ s)" for x s :: "byte list" and k
    by (simp add: take_is_prefix)
  have ab: "outgoing b' = w2" "err = e2" "outgoing a' = (if tcp a \<and> tcp b then w1 else outgoing a)"
    using assms reply forth by (auto simp: proxy_def Let_def split: if_splits)
  show ?thesis unfolding ab using k1 k2 p by (auto simp del: same_prefix_prefix)
qed

theorem proxy_passes_on_witness:
  "\<exists>a' b'. proxy \<lparr>incoming = bytes_reader [1, 2], outgoing = new_writer, tcp = False\<rparr>
        \<lparr>incoming = bytes_reader [], outgoing = new_writer, tcp = True\<rparr> = (a', b', None) \<and>
      accepted (outgoing b') = [1, 2]"
proof -
  let ?a = "\<lparr>incoming = bytes_reader [1, 2], outgoing = new_writer, tcp = False\<rparr>"
  let ?b = "\<lparr>incoming = bytes_reader [], outgoing = new_writer, tcp = True\<rparr>"
  obtain a' b' err where p: "proxy ?a ?b = (a', b', err)" by (metis prod_cases3)
  moreover have "err = None"
    using p by (simp add: proxy_def io_copy.simps rd_read_def bytes_reader_def copy_write_def new_writer_def)
  ultimately show ?thesis using proxy_passes_on [OF p] by (simp add: new_writer_def)
qed

text \<open>
  \<open>proxyConn\<close> dials both ends and copies both ways; when the forward copy ends, the deferred calls
  close the two connections, so the goroutine of the reply direction gets only the first \<open>k\<close> pieces
  of what the destination sends.  The result is the connections it opened (all closed again) and the
  error; a write to a connection its peer has closed fails by the writer's script.
\<close>

definition closed_after :: "nat \<Rightarrow> reader \<Rightarrow> reader" where
  "closed_after k r =
     (if k < length (chunks r)
      then r\<lparr>chunks := take k (chunks r), fin := ErrText ''use of closed network connection'', end_first := False\<rparr>
      else r)"


lemma stream_closed_after: "prefix (stream (closed_after k r)) (stream r)"
proof (cases "k < length (chunks r)")
  case True
  have "stream r = concat (take k (chunks r)) @ concat (drop k (chunks r))"
    by (simp add: stream_def flip: concat_append)
  with True show ?thesis by (simp add: closed_after_def stream_def)
qed (simp add: closed_after_def)



text \<open>
  \<open>log.Logger\<close> without flags writes the prefix, the message and a newline if there is none, in one
  \<open>Write\<close>.
\<close>

definition log_line :: "string \<Rightarrow> byte list \<Rightarrow> byte list" where
  "log_line pre p =
     to_bytes pre @ p @ (if p = [] \<or> last p \<noteq> 10 then [10] else [])"

subsection \<open>Loggers on multi-writers\<close>

text \<open>
  Writing to any writer of the store; and \<open>log.Logger\<close> with \<open>Lshortfile\<close>, which writes the prefix (in
  front of the message with \<open>Lmsgprefix\<close>, in front of the line without), the place \<open>here\<close> of the call,
  and the message.
\<close>

fun io_Write ::
  "(go_error option \<Rightarrow> go_error option \<Rightarrow> go_error option) \<Rightarrow> io_writer \<Rightarrow> writer_store write_fun" where
  "io_Write app (PlainWriter r) p S = (case wr_write p (S r) of (w, n, e) \<Rightarrow> (S(r := w), n, e))"
| "io_Write app (sustainedMultiWriter rs) p S = multi_Write app rs p S"

record log_Logger =
  log_out :: io_writer
  log_pre :: string
  Lmsgprefix :: bool

definition log_text :: "log_Logger \<Rightarrow> string \<Rightarrow> string \<Rightarrow> byte list" where
  "log_text l here msg =
     log_line [] (to_bytes (if Lmsgprefix l then here @ '': '' @ log_pre l @ msg
                            else log_pre l @ here @ '': '' @ msg))"

definition log_Print ::
  "(go_error option \<Rightarrow> go_error option \<Rightarrow> go_error option) \<Rightarrow> log_Logger \<Rightarrow> string \<Rightarrow> string \<Rightarrow>
   writer_store \<Rightarrow> writer_store" where
  "log_Print app l here msg S = fst (io_Write app (log_out l) (log_text l here msg) S)"

definition fmt_Print :: "ref \<Rightarrow> byte list \<Rightarrow> writer_store \<Rightarrow> writer_store" where
  "fmt_Print out p S = S(out := fst (wr_write p (S out)))"

text \<open>The examples of multi.go and level.go; \<open>out\<close> is standard output, \<open>buf\<close> the log file.\<close>

definition log_file_report :: "ref \<Rightarrow> ref \<Rightarrow> writer_store \<Rightarrow> writer_store" where
  "log_file_report out buf S =
     fmt_Print out (to_bytes (newline @ ''log file contents:'' @ newline) @ accepted (S buf)) S"

definition Example_logMultiWriter ::
  "(go_error option \<Rightarrow> go_error option \<Rightarrow> go_error option) \<Rightarrow> ref \<Rightarrow> ref \<Rightarrow> string \<Rightarrow> writer_store \<Rightarrow> writer_store" where
  "Example_logMultiWriter app out buf here S =
     (let w = SustainedMultiWriter [PlainWriter out, PlainWriter buf];
          l = \<lparr>log_out = w, log_pre = ''example: '', Lmsgprefix = True\<rparr>;
          S = fmt_Print out (to_bytes (''standard output:'' @ newline)) S;
          S = log_Print app l here ''Canada is south of Detroit'' S in
      log_file_report out buf S)"

definition Example_logLevels ::
  "(go_error option \<Rightarrow> go_error option \<Rightarrow> go_error option) \<Rightarrow> ref \<Rightarrow> ref \<Rightarrow> string \<Rightarrow> string \<Rightarrow>
   writer_store \<Rightarrow> writer_store" where
  "Example_logLevels app out buf here1 here2 S =
     (let lDebug = \<lparr>log_out = PlainWriter out, log_pre = ''DEBUG: '', Lmsgprefix = False\<rparr>;
          w = SustainedMultiWriter [PlainWriter buf, log_out lDebug];
          lError = \<lparr>log_out = w, log_pre = ''ERROR: '', Lmsgprefix = False\<rparr>;
          S = fmt_Print out (to_bytes (''standard output:'' @ newline)) S;
          S = log_Print app lError here1 ''cannot communicate with the database'' S;
          S = log_Print app lDebug here2 ''you cannot hum while holding your nose'' S in
      log_file_report out buf S)"

lemma log_Print_fresh:
  assumes "script (S out) = []" "script (S buf) = []" "out \<noteq> buf"
  shows "log_out l = PlainWriter out \<Longrightarrow> log_Print app l here msg S =
      S(out := (S out)\<lparr>accepted := accepted (S out) @ log_text l here msg\<rparr>)"
    "log_out l = sustainedMultiWriter [a, b] \<Longrightarrow> {a, b} = {out, buf} \<Longrightarrow> log_Print app l here msg S =
      S(out := (S out)\<lparr>accepted := accepted (S out) @ log_text l here msg\<rparr>,
        buf := (S buf)\<lparr>accepted := accepted (S buf) @ log_text l here msg\<rparr>)"
  using assms by (auto simp: log_Print_def multi_Write_def doubleton_eq_iff fun_upd_twist)

text \<open>
  A debug message reaches standard output only, an error message the log file too, each once and in
  full, in the order in which they were logged: what the comments in level.go show.
\<close>

theorem log_levels_output:
  assumes "out \<noteq> buf" and "S out = new_writer" and "S buf = new_writer"
  shows "let S' = Example_logLevels app out buf h1 h2 S;
      err = to_bytes (''ERROR: '' @ h1 @ '': cannot communicate with the database'' @ newline);
      dbg = to_bytes (''DEBUG: '' @ h2 @ '': you cannot hum while holding your nose'' @ newline) in
    accepted (S' buf) = err \<and>
    accepted (S' out) = to_bytes (''standard output:'' @ newline) @ err @ dbg @
      to_bytes (newline @ ''log file contents:'' @ newline) @ err"
proof -
  let ?debug = "\<lparr>log_out = PlainWriter out, log_pre = ''DEBUG: '', Lmsgprefix = False\<rparr>"
  let ?error = "\<lparr>log_out = sustainedMultiWriter [buf, out], log_pre = ''ERROR: '', Lmsgprefix = False\<rparr>"
  let ?e = "log_text ?error h1 ''cannot communicate with the database''"
  let ?d = "log_text ?debug h2 ''you cannot hum while holding your nose''"
  have "let S' = Example_logLevels app out buf h1 h2 S in accepted (S' buf) = ?e \<and>
      accepted (S' out) = to_bytes (''standard output:'' @ newline) @ ?e @ ?d @
        to_bytes (newline @ ''log file contents:'' @ newline) @ ?e"
    using assms
    by (simp add: Example_logLevels_def Let_def log_Print_fresh [of _ out buf] SustainedMultiWriter_def
        fmt_Print_def log_file_report_def new_writer_def insert_commute del: to_bytes_simps)
  moreover have "?e = to_bytes (''ERROR: '' @ h1 @ '': cannot communicate with the database'' @ newline)"
    by (simp add: log_text_def log_line_def newline_def byte_of_def)
  moreover have "?d = to_bytes (''DEBUG: '' @ h2 @ '': you cannot hum while holding your nose'' @ newline)"
    by (simp add: log_text_def log_line_def newline_def byte_of_def)
  ultimately show ?thesis by (simp only: Let_def)
qed

end
