(* ===== verification/Monitor.thy ===== *)
theory Monitor
  imports Writers
begin

text \<open>
  Chapter4/monitor.go: a logger as a writer, and the example that passes a connection's traffic
  through it, with the goroutine that echoes and the client that sends one message.
\<close>

subsection \<open>The monitor\<close>

text \<open>
  \<open>Monitor\<close> embeds a logger: a prefix, and standard output as its writer.  \<open>Monitor.Write\<close> reports
  the whole length even when the logger failed.
\<close>

definition Monitor_Write :: "string \<Rightarrow> writer write_fun" where
  "Monitor_Write pre p w = (case wr_write (log_line pre p) w of (w, _, e) \<Rightarrow> (w, length p, e))"

text \<open>\<open>io.TeeReader(conn, m).Read\<close> and \<open>io.MultiWriter(conn, m).Write\<close>.\<close>

definition tee_read ::
  "'s write_fun \<Rightarrow> nat \<Rightarrow> reader \<times> 's \<Rightarrow> (reader \<times> 's) \<times> byte list \<times> go_error option" where
  "tee_read wr n rs =
     (case rd_read n (fst rs) of
        (r, p, e) \<Rightarrow>
          if p = [] then ((r, snd rs), p, e)
          else (case wr p (snd rs) of
                  (s, _, Some we) \<Rightarrow> ((r, s), p, Some we)
                | (s, _, None) \<Rightarrow> ((r, s), p, e)))"

definition both_write :: "'a write_fun \<Rightarrow> 'b write_fun \<Rightarrow> ('a \<times> 'b) write_fun" where
  "both_write f g p s =
     (case f p (fst s) of
        (a, n, Some e) \<Rightarrow> ((a, snd s), n, Some e)
      | (a, n, None) \<Rightarrow>
          if n \<noteq> length p then ((a, snd s), n, Some ErrShortWrite)
          else (case g p (snd s) of
                  (b, n, Some e) \<Rightarrow> ((a, b), n, Some e)
                | (b, n, None) \<Rightarrow>
                    if n \<noteq> length p then ((a, b), n, Some ErrShortWrite)
                    else ((a, b), length p, None)))"

text \<open>
  The goroutine of \<open>ExampleMonitor\<close> on an accepted connection: read once through the monitor, echo to
  the connection and the monitor.  \<open>show_err\<close> is the text of an error.
\<close>

definition monitor_echo ::
  "(go_error \<Rightarrow> byte list) \<Rightarrow> reader \<Rightarrow> writer \<Rightarrow> writer \<Rightarrow> reader \<times> writer \<times> writer" where
  "monitor_echo show_err r conn mon =
     (case tee_read (Monitor_Write ''monitor: '') 1024 (r, mon) of
        ((r, mon), b, e) \<Rightarrow>
          if e \<noteq> None \<and> e \<noteq> Some EOF
          then (r, conn, fst (wr_write (log_line ''monitor: '' (show_err (the e))) mon))
          else (case both_write wr_write (Monitor_Write ''monitor: '') b (conn, mon) of
                  ((conn, mon), _, e) \<Rightarrow>
                    if e \<noteq> None \<and> e \<noteq> Some EOF
                    then (r, conn, fst (wr_write (log_line ''monitor: '' (show_err (the e))) mon))
                    else (r, conn, mon)))"

subsection \<open>The example\<close>

text \<open>
  What the example meets: the outcome of listening, of the goroutine's \<open>Accept\<close> (the connection as a
  reader and a writer), and of the client's calls.
\<close>

record monitor_env =
  listen_err :: "go_error option"
  accepted_conn :: "(reader \<times> writer) result"
  dial_err :: "go_error option"
  client_write_err :: "go_error option"

text \<open>
  \<open>monitor.Fatal\<close> logs the error and exits; what the goroutine has logged by then depends on the
  scheduler and is left out.  Otherwise the example ends when the goroutine has closed \<open>done\<close>, with
  what was echoed on the connection, if there was one, and what is on standard output.
\<close>

datatype monitor_end = MonitorFatal go_error | MonitorDone "writer option" writer

definition monitor_goroutine ::
  "(go_error \<Rightarrow> byte list) \<Rightarrow> (reader \<times> writer) result \<Rightarrow> writer \<Rightarrow> writer option \<times> writer" where
  "monitor_goroutine show_err accept mon =
     (case accept of
        Inl err \<Rightarrow> (None, mon)
      | Inr (r, conn) \<Rightarrow> (case monitor_echo show_err r conn mon of (r, conn, mon) \<Rightarrow> (Some conn, mon)))"

definition ExampleMonitor :: "(go_error \<Rightarrow> byte list) \<Rightarrow> monitor_env \<Rightarrow> writer \<Rightarrow> monitor_end" where
  "ExampleMonitor show_err E stdout =
     (case listen_err E of
        Some err \<Rightarrow> MonitorFatal err
      | None \<Rightarrow>
     (case dial_err E of
        Some err \<Rightarrow> MonitorFatal err
      | None \<Rightarrow>
     (case client_write_err E of
        Some err \<Rightarrow> MonitorFatal err
      | None \<Rightarrow> (case monitor_goroutine show_err (accepted_conn E) stdout of (conn, mon) \<Rightarrow> MonitorDone conn mon))))"

text \<open>
  What \<open>monitor_echo\<close> does on any connection, when standard output accepts everything: it logs what
  the first \<open>Read\<close> delivers, and again when the echo was written; if the echo fails, its error in
  place of the second line; if the read fails, only the error; and at the end of the stream an empty
  message.
\<close>

lemma monitor_echo_cases:
  assumes "rd_read 1024 r = (r', p, e)" and "script mon = []" and "wr_write p conn = (conn', n, we)"
  shows "monitor_echo show_err r conn mon =
    (if p = [] \<and> e \<noteq> None \<and> e \<noteq> Some EOF then
       (r', conn, mon\<lparr>accepted := accepted mon @ log_line ''monitor: '' (show_err (the e))\<rparr>)
     else
       (r', conn', mon\<lparr>accepted := accepted mon @ (if p = [] then [] else log_line ''monitor: '' p) @
          (case we of
             None \<Rightarrow> log_line ''monitor: '' p
           | Some err \<Rightarrow> if err = EOF then [] else log_line ''monitor: '' (show_err err))\<rparr>))"
proof -
  have e: "p \<noteq> [] \<Longrightarrow> e = None" using assms(1) by (auto simp: rd_read_def split: list.splits)
  have "we = None \<Longrightarrow> n = length p" using assms(3) wr_write_ok by simp
  then show ?thesis
    using assms e
    by (cases "p = []"; cases we)
      (auto simp: monitor_echo_def tee_read_def both_write_def Monitor_Write_def)
qed

lemma monitor_logs_twice:
  assumes "rd_read 1024 r = (r', p, e)" "p \<noteq> []" "script conn = []" "script mon = []"
  shows "monitor_echo show_err r conn mon =
    (r', conn\<lparr>accepted := accepted conn @ p\<rparr>,
     mon\<lparr>accepted := accepted mon @ log_line ''monitor: '' p @ log_line ''monitor: '' p\<rparr>)"
  using monitor_echo_cases [OF assms(1,4)] assms(2,3) by simp

text \<open>
  If its calls succeed and standard output accepts what is written to it, the example ends.  What
  the goroutine's one \<open>Read\<close> delivers, at most 1024 bytes of the message, is echoed and logged
  twice; if the echo fails it is logged once, and then the error; if reading fails only the error is
  logged.  A client that closes without sending makes the monitor log an empty message, for the end
  of the stream is passed on to the echo.
\<close>

theorem monitor_example_logs:
  assumes "listen_err E = None" and "dial_err E = None" and "client_write_err E = None"
    and "accepted_conn E = Inr (r, conn)" and "script out = []"
  shows "\<exists>conn' out'. ExampleMonitor show_err E out = MonitorDone (Some conn') (out\<lparr>accepted := accepted out @ out'\<rparr>) \<and>
    (\<forall>c cs k err. chunks r = c # cs \<and> c \<noteq> [] \<longrightarrow>
       (script conn = [] \<longrightarrow> accepted conn' = accepted conn @ take 1024 c \<and>
          out' = log_line ''monitor: '' (take 1024 c) @ log_line ''monitor: '' (take 1024 c)) \<and>
       (script conn = [Some (k, err)] \<and> err \<noteq> EOF \<longrightarrow> accepted conn' = accepted conn @ take k (take 1024 c) \<and>
          out' = log_line ''monitor: '' (take 1024 c) @ log_line ''monitor: '' (show_err err))) \<and>
    (chunks r = [] \<longrightarrow> accepted conn' = accepted conn \<and>
       (fin r \<noteq> EOF \<longrightarrow> out' = log_line ''monitor: '' (show_err (fin r))) \<and>
       (fin r = EOF \<and> script conn = [] \<longrightarrow> out' = log_line ''monitor: '' []))"
proof -
  obtain r' p e where rd: "rd_read 1024 r = (r', p, e)" by (metis prod_cases3)
  obtain conn1 n we where w: "wr_write p conn = (conn1, n, we)" by (metis prod_cases3)
  have p: "chunks r = c # cs \<Longrightarrow> p = take 1024 c" for c cs using rd by (simp add: rd_read_def)
  have p0: "chunks r = [] \<Longrightarrow> p = [] \<and> e = Some (fin r)" using rd by (auto simp: rd_read_def)
  have eof: "chunks r = [] \<Longrightarrow> accepted conn1 = accepted conn"
    using w p0 wr_write_accepted [of p conn] by simp
  let ?failed = "p = [] \<and> e \<noteq> None \<and> e \<noteq> Some EOF"
  let ?conn = "if ?failed then conn else conn1"
  let ?out = "if ?failed then log_line ''monitor: '' (show_err (the e))
    else (if p = [] then [] else log_line ''monitor: '' p) @
      (case we of
         None \<Rightarrow> log_line ''monitor: '' p
       | Some err \<Rightarrow> if err = EOF then [] else log_line ''monitor: '' (show_err err))"
  have run: "ExampleMonitor show_err E out = MonitorDone (Some ?conn) (out\<lparr>accepted := accepted out @ ?out\<rparr>)"
    by (cases ?failed) (simp_all only: ExampleMonitor_def monitor_goroutine_def assms(1-4) option.case sum.case
        prod.case monitor_echo_cases [OF rd assms(5) w, of show_err] if_True if_False simp_thms)
  have "\<not> ?failed" "p \<noteq> []" if "chunks r = c # cs" "c \<noteq> []" for c cs using p [OF that(1)] that(2) by auto
  moreover have "accepted conn1 = accepted conn @ p" "we = None" if "script conn = []"
    using w that by auto
  moreover have "accepted conn1 = accepted conn @ take k p" "we = Some err" if "script conn = [Some (k, err)]" for k err
    using w that by (auto simp: wr_write_def)
  ultimately show ?thesis
    unfolding run using p p0 eof
    by (intro exI [of _ ?conn] exI [of _ ?out] conjI allI impI) (simp_all split del: if_split, (simp | blast)+)
qed

theorem monitor_example_logs_witness:
  "\<exists>conn'. ExampleMonitor (\<lambda>_. [])
     \<lparr>listen_err = None, accepted_conn = Inr (\<lparr>chunks = [to_bytes (''Test'' @ [CHR 0x0A])], fin = EOF, end_first = False\<rparr>, new_writer),
      dial_err = None, client_write_err = None\<rparr> new_writer =
   MonitorDone (Some conn') \<lparr>accepted = to_bytes (''monitor: Test'' @ [CHR 0x0A] @ ''monitor: Test'' @ [CHR 0x0A]), script = []\<rparr>"
proof -
  let ?E = "\<lparr>listen_err = None, accepted_conn = Inr (\<lparr>chunks = [to_bytes (''Test'' @ [CHR 0x0A])], fin = EOF, end_first = False\<rparr>, new_writer),
      dial_err = None, client_write_err = None\<rparr>"
  have lines: "log_line ''monitor: '' (take 1024 (to_bytes (''Test'' @ [CHR 0x0A]))) = to_bytes (''monitor: Test'' @ [CHR 0x0A])"
    by code_simp
  show ?thesis
    using monitor_example_logs [of ?E _ _ new_writer "\<lambda>_. []", simplified] lines by (auto simp: new_writer_def)
qed

end
