(* ===== verification/Pinger.thy ===== *)
theory Pinger
  imports GoIO
begin

text \<open>
  The heartbeat of chapter3/ping.go: \<open>Pinger\<close> writes \<open>ping\<close> each time its timer fires, takes new
  intervals from a channel and stops when its context is cancelled.

  A pass through the loop is a function of the branch that \<open>select\<close> takes (Go picks any branch that
  is ready); \<open>pinger_step\<close> adds what the environment does: the timer fires, the context is
  cancelled, an interval is sent.  A timer is running (\<open>Armed\<close>), has fired with its value not yet
  received (\<open>Fired\<close>), or is idle.  What \<open>Stop\<close> returns for a timer that has fired changed with
  Go 1.23 (go.mod asks for 1.23): it used to be false with the value still in the channel
  (\<open>async = True\<close>), and is now true with the value gone; both are covered.
\<close>

definition defaultPingInterval :: duration where
  "defaultPingInterval = 30 * second"

datatype timer = Armed duration | Fired | Idle

fun timer_Stop :: "bool \<Rightarrow> timer \<Rightarrow> timer \<times> bool" where
  "timer_Stop async (Armed d) = (Idle, True)"
| "timer_Stop async Fired = (if async then (Fired, False) else (Idle, True))"
| "timer_Stop async Idle = (Idle, False)"

text \<open>
  \<open>if !timer.Stop() { <-timer.C }\<close>: receiving from the channel of an idle timer blocks for ever
  (\<open>None\<close>).
\<close>

definition stop_drain :: "bool \<Rightarrow> timer \<Rightarrow> timer option" where
  "stop_drain async t =
     (case timer_Stop async t of
        (t, True) \<Rightarrow> Some t
      | (t, False) \<Rightarrow> (case t of Fired \<Rightarrow> Some Idle | _ \<Rightarrow> None))"

datatype pinger_pc = Running | Finished | Stuck

record pinger =
  interval :: duration
  timer :: timer
  ctx_done :: bool
  resets :: "duration list"
  out :: writer
  pc :: pinger_pc

definition ping :: "byte list" where
  "ping = to_bytes ''ping''"

datatype branch = CaseDone | CaseReset | CaseTimer | CaseDefault

subsection \<open>The function\<close>

text \<open>Up to the loop.  A branch that is not ready cannot be taken (\<open>None\<close>).\<close>

definition Pinger_begin :: "branch \<Rightarrow> bool \<Rightarrow> duration list \<Rightarrow> writer \<Rightarrow> pinger option" where
  "Pinger_begin br done rs w =
     (let enter = (\<lambda>interval rs.
            let interval = (if interval \<le> 0 then defaultPingInterval else interval) in
            Some \<lparr>interval = interval, timer = Armed interval, ctx_done = done, resets = rs, out = w,
                  pc = Running\<rparr>) in
      case br of
        CaseDone \<Rightarrow>
          if done then Some \<lparr>interval = 0, timer = Idle, ctx_done = done, resets = rs, out = w, pc = Finished\<rparr>
          else None
      | CaseReset \<Rightarrow> (case rs of [] \<Rightarrow> None | d # rs \<Rightarrow> enter d rs)
      | CaseDefault \<Rightarrow> if done \<or> rs \<noteq> [] then None else enter 0 rs
      | CaseTimer \<Rightarrow> None)"

text \<open>The deferred function.\<close>

definition cleanup :: "bool \<Rightarrow> pinger \<Rightarrow> pinger" where
  "cleanup async p =
     (case stop_drain async (timer p) of
        Some t \<Rightarrow> p\<lparr>timer := t, pc := Finished\<rparr>
      | None \<Rightarrow> p\<lparr>pc := Stuck\<rparr>)"

text \<open>One pass through the loop.\<close>

definition Pinger_iter :: "bool \<Rightarrow> branch \<Rightarrow> pinger \<Rightarrow> pinger option" where
  "Pinger_iter async br p =
     (case br of
        CaseDone \<Rightarrow> if ctx_done p then Some (cleanup async p) else None
      | CaseReset \<Rightarrow>
          (case resets p of
             [] \<Rightarrow> None
           | newInterval # rs \<Rightarrow>
               let p = p\<lparr>resets := rs\<rparr> in
               (case stop_drain async (timer p) of
                  None \<Rightarrow> Some (p\<lparr>pc := Stuck\<rparr>)
                | Some t \<Rightarrow>
                    let p = (if newInterval > 0 then p\<lparr>interval := newInterval\<rparr> else p) in
                    Some (p\<lparr>timer := Armed (interval p)\<rparr>)))
      | CaseTimer \<Rightarrow>
          if timer p = Fired then
            let p = p\<lparr>timer := Idle\<rparr> in
            (case wr_write ping (out p) of
               (w, _, Some err) \<Rightarrow> Some (cleanup async (p\<lparr>out := w\<rparr>))
             | (w, _, None) \<Rightarrow> Some (p\<lparr>out := w, timer := Armed (interval p)\<rparr>))
          else None
      | CaseDefault \<Rightarrow> None)"

subsection \<open>Steps and reachable states\<close>

inductive pinger_step :: "bool \<Rightarrow> pinger \<Rightarrow> pinger \<Rightarrow> bool" for async where
  fire: "timer p = Armed d \<Longrightarrow> pinger_step async p (p\<lparr>timer := Fired\<rparr>)"
| cancel: "pinger_step async p (p\<lparr>ctx_done := True\<rparr>)"
| send: "pinger_step async p (p\<lparr>resets := resets p @ [d]\<rparr>)"
| loop: "pc p = Running \<Longrightarrow> Pinger_iter async br p = Some p' \<Longrightarrow> pinger_step async p p'"

inductive_cases pinger_stepE: "pinger_step async p p'"

inductive pinger_reach :: "bool \<Rightarrow> writer \<Rightarrow> pinger \<Rightarrow> bool" for async w where
  start: "Pinger_begin br done rs w = Some p \<Longrightarrow> pinger_reach async w p"
| step: "pinger_reach async w p \<Longrightarrow> pinger_step async p p' \<Longrightarrow> pinger_reach async w p'"

text \<open>
  While the function is in its loop the timer is running with the current interval, or has fired and
  not been received.
\<close>

definition timer_ready :: "pinger \<Rightarrow> bool" where
  "timer_ready p \<longleftrightarrow> interval p > 0 \<and> (timer p = Fired \<or> timer p = Armed (interval p))"

lemma stop_drain_ready [simp]: "stop_drain async Fired = Some Idle" "stop_drain async (Armed d) = Some Idle"
  by (simp_all add: stop_drain_def)

lemma stop_drain_Idle [simp]: "stop_drain async Idle = None"
  by (simp add: stop_drain_def)

lemma begin_ready:
  "Pinger_begin br done rs w = Some p \<Longrightarrow> out p = w \<and> (pc p = Finished \<or> pc p = Running \<and> timer_ready p)"
  by (cases br) (auto simp: Pinger_begin_def Let_def timer_ready_def defaultPingInterval_def second_def
      split: if_splits list.splits)

lemma iter_cases:
  assumes "timer_ready p" "Pinger_iter async br p = Some p'" "pc p = Running"
  shows "(case br of
      CaseDone \<Rightarrow> pc p' = Finished \<and> out p' = out p
    | CaseReset \<Rightarrow> pc p' = Running \<and> timer_ready p' \<and> out p' = out p
    | CaseTimer \<Rightarrow>
        (case wr_write ping (out p) of
           (w, _, None) \<Rightarrow> pc p' = Running \<and> timer_ready p' \<and> out p' = w
         | (w, _, Some _) \<Rightarrow> pc p' = Stuck \<and> out p' = w)
    | CaseDefault \<Rightarrow> False)"
  using assms
  by (cases br) (auto simp: Pinger_iter_def timer_ready_def cleanup_def Let_def
      split: if_splits list.splits option.splits prod.splits)

lemma step_keeps_ready:
  "pinger_step async p p' \<Longrightarrow> pc p = Running \<Longrightarrow> timer_ready p \<Longrightarrow>
    pc p' = Running \<and> timer_ready p' \<or> pc p' \<in> {Finished, Stuck}"
proof (induction rule: pinger_step.induct)
  case (loop p br p')
  then show ?case
    using iter_cases [OF loop(4,2,1)] by (cases br) (auto split: option.splits prod.splits)
qed (auto simp: timer_ready_def)

lemma step_ended: "pinger_step async p p' \<Longrightarrow> pc p \<noteq> Running \<Longrightarrow> pc p' = pc p \<and> out p' = out p"
  by (induction rule: pinger_step.induct) auto

lemma reach_ready: "pinger_reach async w p \<Longrightarrow> pc p = Running \<Longrightarrow> timer_ready p"
proof (induction rule: pinger_reach.induct)
  case (start br fin rs p)
  then show ?case using begin_ready by fastforce
next
  case (step p p')
  then show ?case using step_keeps_ready [of async p p'] step_ended [of async p p'] by auto
qed

text \<open>In such a state no case of \<open>select\<close> whose channel is ready blocks.\<close>

lemma ready_progress:
  assumes "pc p = Running \<Longrightarrow> timer_ready p"
  shows "pc p = Running \<longrightarrow>
    (ctx_done p \<longrightarrow> (\<exists>p'. Pinger_iter async CaseDone p = Some p' \<and> pc p' = Finished)) \<and>
    (resets p \<noteq> [] \<longrightarrow>
       (\<exists>p'. Pinger_iter async CaseReset p = Some p' \<and> pc p' = Running \<and> resets p' = tl (resets p) \<and>
          interval p' = (if hd (resets p) > 0 then hd (resets p) else interval p))) \<and>
    (timer p = Fired \<longrightarrow> (\<exists>p'. Pinger_iter async CaseTimer p = Some p')) \<and>
    (timer p \<noteq> Fired \<longrightarrow> pinger_step async p (p\<lparr>timer := Fired\<rparr>))"
  using assms
  by (cases "resets p") (auto simp: Pinger_iter_def timer_ready_def cleanup_def Let_def
      intro: pinger_step.fire split: option.split prod.split)

subsection \<open>What the pinger does\<close>

definition whole_pings :: "writer \<Rightarrow> writer \<Rightarrow> bool" where
  "whole_pings w v \<longleftrightarrow> (\<exists>k. accepted v = accepted w @ concat (replicate k ping))"

definition cut_pings :: "writer \<Rightarrow> writer \<Rightarrow> bool" where
  "cut_pings w v \<longleftrightarrow> (\<exists>k j. j \<le> length ping \<and> accepted v = accepted w @ concat (replicate k ping) @ take j ping)"

lemma concat_replicate_snoc: "concat (replicate k xs) @ xs = concat (replicate (Suc k) xs)"
  by (induction k) simp_all

lemma pings_refl [simp]: "whole_pings w w"
  unfolding whole_pings_def by (rule exI [of _ 0]) simp

lemma whole_cut: "whole_pings w v \<Longrightarrow> cut_pings w v"
  unfolding whole_pings_def cut_pings_def by (metis append_Nil2 le0 take0)

lemma write_ping:
  assumes "whole_pings w v" "wr_write ping v = (v', n, e)"
  shows "cut_pings w v'" "e = None \<Longrightarrow> whole_pings w v'"
proof -
  obtain k where k: "accepted v = accepted w @ concat (replicate k ping)"
    using assms(1) by (auto simp: whole_pings_def)
  obtain j where "j \<le> length ping" "accepted v' = accepted v @ take j ping"
    using wr_write_accepted [of ping v] assms(2) by auto
  with k show "cut_pings w v'" unfolding cut_pings_def by (intro exI [of _ k] exI [of _ j]) simp
  assume "e = None"
  then have "accepted v' = accepted v @ ping" using wr_write_ok assms(2) by blast
  with k show "whole_pings w v'"
    unfolding whole_pings_def using concat_replicate_snoc [of k ping] by (metis append_assoc)
qed

lemma reach_pings:
  "pinger_reach async w p \<Longrightarrow> cut_pings w (out p) \<and> (pc p \<noteq> Stuck \<longrightarrow> whole_pings w (out p))"
proof (induction rule: pinger_reach.induct)
  case (start br fin rs p)
  then show ?case using begin_ready whole_cut by fastforce
next
  case (step p p')
  show ?case
  proof (cases "pc p = Running")
    case False
    then show ?thesis using step step_ended by metis
  next
    case True
    with step have w: "whole_pings w (out p)" and r: "timer_ready p" using reach_ready by auto
    from step(2) show ?thesis
    proof (cases rule: pinger_step.cases)
      case (loop br)
      show ?thesis
        using iter_cases [OF r loop(2,1)] w whole_cut write_ping [OF w]
        by (cases br) (auto split: option.splits prod.splits)
    qed (use w whole_cut in auto)
  qed
qed

text \<open>
  C9: Whatever the environment does and whichever branches \<open>select\<close> picks, while the pinger runs its
  interval is positive and its timer is set to that interval or has just fired, so it is never left
  without a timer; what it has written is a whole number of pings as long as no write has failed.  It
  can always react: a cancelled context can be taken and ends it, a pending reset can be taken, changes
  the interval if it is positive and leaves it running, a timer that has fired can be taken, and one
  that has not can still fire.
\<close>

theorem pinger_invariant:
  assumes "pinger_reach async w p"
  shows "(pc p = Running \<longrightarrow> interval p > 0 \<and> (timer p = Fired \<or> timer p = Armed (interval p))) \<and>
    (pc p \<noteq> Stuck \<longrightarrow> (\<exists>k. accepted (out p) = accepted w @ concat (replicate k ping))) \<and>
    (\<exists>k j. j \<le> 4 \<and> accepted (out p) = accepted w @ concat (replicate k ping) @ take j ping) \<and>
    (pc p = Running \<longrightarrow>
       (ctx_done p \<longrightarrow> (\<exists>p'. Pinger_iter async CaseDone p = Some p' \<and> pc p' = Finished)) \<and>
       (resets p \<noteq> [] \<longrightarrow>
          (\<exists>p'. Pinger_iter async CaseReset p = Some p' \<and> pc p' = Running \<and> resets p' = tl (resets p) \<and>
             interval p' = (if hd (resets p) > 0 then hd (resets p) else interval p))) \<and>
       (timer p = Fired \<longrightarrow> (\<exists>p'. Pinger_iter async CaseTimer p = Some p')) \<and>
       (timer p \<noteq> Fired \<longrightarrow> pinger_step async p (p\<lparr>timer := Fired\<rparr>)))"
proof -
  have "length ping = 4" by (simp add: ping_def)
  then have inv: "(pc p = Running \<longrightarrow> interval p > 0 \<and> (timer p = Fired \<or> timer p = Armed (interval p))) \<and>
    (pc p \<noteq> Stuck \<longrightarrow> (\<exists>k. accepted (out p) = accepted w @ concat (replicate k ping))) \<and>
    (\<exists>k j. j \<le> 4 \<and> accepted (out p) = accepted w @ concat (replicate k ping) @ take j ping)"
    using reach_ready [OF assms] reach_pings [OF assms]
    by (auto simp: timer_ready_def whole_pings_def cut_pings_def)
  show ?thesis using inv ready_progress [OF reach_ready [OF assms], of async] by blast
qed

definition fresh_pinger :: pinger where
  "fresh_pinger = \<lparr>interval = second, timer = Fired, ctx_done = False, resets = [], out = new_writer, pc = Running\<rparr>"

lemma fresh_reach: "pinger_reach async new_writer fresh_pinger"
proof -
  let ?p = "fresh_pinger\<lparr>timer := Armed second\<rparr>"
  have "Pinger_begin CaseReset False [second] new_writer = Some ?p"
    by (simp add: Pinger_begin_def fresh_pinger_def second_def)
  then have "pinger_reach async new_writer ?p" by (rule pinger_reach.start)
  moreover have "pinger_step async ?p (?p\<lparr>timer := Fired\<rparr>)" by (rule pinger_step.fire [of _ second]) simp
  ultimately have "pinger_reach async new_writer (?p\<lparr>timer := Fired\<rparr>)" by (rule pinger_reach.step)
  then show ?thesis by (simp add: fresh_pinger_def)
qed

theorem pinger_invariant_witness:
  "\<exists>p'. Pinger_iter False CaseTimer fresh_pinger = Some p' \<and> timer p' = Armed second \<and>
     accepted (out p') = [112, 105, 110, 103] \<and>
     (\<exists>k. accepted (out p') = accepted new_writer @ concat (replicate k ping))"
proof -
  let ?p' = "fresh_pinger\<lparr>timer := Armed second, out := \<lparr>accepted = [112, 105, 110, 103], script = []\<rparr>\<rparr>"
  have it: "Pinger_iter False CaseTimer fresh_pinger = Some ?p'" by code_simp
  have "pc fresh_pinger = Running" by (simp add: fresh_pinger_def)
  from pinger_reach.step [OF fresh_reach pinger_step.loop [OF this it]]
  have "pinger_reach False new_writer ?p'" .
  from pinger_invariant [OF this] it show ?thesis by (auto simp: fresh_pinger_def)
qed

text \<open>
  C37: How a pass through the loop ends.  Cancelling the context can always be taken and makes the
  function return, and a new interval never blocks, for both meanings of \<open>Stop\<close>; but when a write
  fails the value of the timer has been received, so the deferred function waits for another one that
  never comes, and \<open>Pinger\<close> never returns.
\<close>

theorem pinger_write_error_blocks:
  assumes "pinger_reach async w p" and "pc p = Running"
  shows "(ctx_done p \<longrightarrow> (\<exists>p'. Pinger_iter async CaseDone p = Some p' \<and> pc p' = Finished)) \<and>
    (\<forall>p'. Pinger_iter async CaseReset p = Some p' \<longrightarrow> pc p' = Running \<and> timer p' = Armed (interval p')) \<and>
    (\<forall>p'. Pinger_iter async CaseTimer p = Some p' \<longrightarrow>
       (if snd (snd (wr_write ping (out p))) = None then pc p' = Running
        else \<forall>p''. (pinger_step async)\<^sup>*\<^sup>* p' p'' \<longrightarrow> pc p'' = Stuck))"
proof (intro conjI allI impI)
  have r: "timer_ready p" using reach_ready [OF assms] .
  show "\<exists>p'. Pinger_iter async CaseDone p = Some p' \<and> pc p' = Finished" if "ctx_done p"
    using that iter_cases [OF r _ assms(2), of async CaseDone] by (auto simp: Pinger_iter_def)
  show "pc p' = Running" "timer p' = Armed (interval p')" if "Pinger_iter async CaseReset p = Some p'" for p'
    using that r assms(2)
    by (auto simp: Pinger_iter_def timer_ready_def Let_def split: list.splits option.splits)
  show "if snd (snd (wr_write ping (out p))) = None then pc p' = Running
        else \<forall>p''. (pinger_step async)\<^sup>*\<^sup>* p' p'' \<longrightarrow> pc p'' = Stuck"
    if it: "Pinger_iter async CaseTimer p = Some p'" for p'
  proof -
    have stays: "pc p'' = Stuck" if "(pinger_step async)\<^sup>*\<^sup>* p' p''" "pc p' = Stuck" for p''
      using that by (induction rule: rtranclp_induct) (auto dest: step_ended)
    show ?thesis
      using iter_cases [OF r it assms(2)] stays by (auto split: option.splits prod.splits)
  qed
qed

theorem pinger_write_error_blocks_witness:
  "\<exists>w p p'. pinger_reach False w p \<and> Pinger_iter False CaseTimer p = Some p' \<and>
     (\<forall>p''. (pinger_step False)\<^sup>*\<^sup>* p' p'' \<longrightarrow> pc p'' = Stuck)"
proof -
  let ?w = "new_writer\<lparr>script := [Some (0, EOF)]\<rparr>"
  let ?p = "\<lparr>interval = second, timer = Armed second, ctx_done = False, resets = [], out = ?w, pc = Running\<rparr>"
  let ?q = "?p\<lparr>timer := Fired\<rparr>"
  have "Pinger_begin CaseReset False [second] ?w = Some ?p" by (simp add: Pinger_begin_def second_def)
  then have "pinger_reach False ?w ?p" by (rule pinger_reach.start)
  then have r: "pinger_reach False ?w ?q"
    by (rule pinger_reach.step) (rule pinger_step.fire [of _ second], simp)
  have e: "snd (snd (wr_write ping (out ?q))) \<noteq> None" by (simp add: wr_write_def new_writer_def)
  obtain p' where p': "Pinger_iter False CaseTimer ?q = Some p'"
    by (auto simp: Pinger_iter_def wr_write_def new_writer_def Let_def)
  from pinger_write_error_blocks [OF r] e p'
  have "\<forall>p''. (pinger_step False)\<^sup>*\<^sup>* p' p'' \<longrightarrow> pc p'' = Stuck" by auto
  with r p' show ?thesis by blast
qed

end
