(* ===== verification/Heartbeat.thy ===== *)
theory Heartbeat
  imports Pinger
begin

text \<open>
  The pinger of chapter3/ping.go in time, and \<open>ExamplePinger\<close>, which drives it.  A \<open>heartbeat\<close> adds to
  the pinger the clock, the time at which its timer is due, and the times of the pings it has written.

  \<open>beat_step\<close> lets time pass between the steps of \<open>Pinger\<close>.  With \<open>prompt = False\<close> any delay is
  allowed anywhere (a slow scheduler, a writer that blocks); with \<open>prompt = True\<close> time passes only
  while \<open>select\<close> has nothing to do, and a timer fires when it is due.  \<open>offers\<close> are the intervals that may
  be sent.
\<close>

record heartbeat =
  pin :: pinger
  clock :: duration
  due :: duration
  beats :: "duration list"

text \<open>A pass through the loop: it sets the timer again, from now on, unless the function ends.\<close>

definition beat_loop :: "bool \<Rightarrow> branch \<Rightarrow> heartbeat \<Rightarrow> heartbeat option" where
  "beat_loop async br h =
     (case Pinger_iter async br (pin h) of
        None \<Rightarrow> None
      | Some p \<Rightarrow>
          Some (h\<lparr>pin := p,
                  due := (if pc p = Running then clock h + interval p else due h),
                  beats := (if br = CaseTimer \<and> snd (snd (wr_write ping (out (pin h)))) = None
                            then beats h @ [clock h] else beats h)\<rparr>))"

definition beat_start :: "branch \<Rightarrow> bool \<Rightarrow> duration list \<Rightarrow> writer \<Rightarrow> duration \<Rightarrow> heartbeat option" where
  "beat_start br done rs w t =
     (case Pinger_begin br done rs w of
        None \<Rightarrow> None
      | Some p \<Rightarrow> Some \<lparr>pin = p, clock = t, due = t + interval p, beats = []\<rparr>)"

definition select_idle :: "pinger \<Rightarrow> bool" where
  "select_idle p \<longleftrightarrow> timer p \<noteq> Fired \<and> resets p = [] \<and> \<not> ctx_done p"

definition armed :: "pinger \<Rightarrow> bool" where
  "armed p \<longleftrightarrow> (\<exists>d. timer p = Armed d)"

definition expired :: "heartbeat \<Rightarrow> heartbeat" where
  "expired h = h\<lparr>pin := (pin h)\<lparr>timer := Fired\<rparr>\<rparr>"

definition offered :: "duration \<Rightarrow> heartbeat \<Rightarrow> heartbeat" where
  "offered d h = h\<lparr>pin := (pin h)\<lparr>resets := resets (pin h) @ [d]\<rparr>\<rparr>"

definition cancelled :: "heartbeat \<Rightarrow> heartbeat" where
  "cancelled h = h\<lparr>pin := (pin h)\<lparr>ctx_done := True\<rparr>\<rparr>"

inductive beat_step :: "bool \<Rightarrow> bool \<Rightarrow> duration set \<Rightarrow> heartbeat \<Rightarrow> heartbeat \<Rightarrow> bool" for async prompt offers where
  delay: "0 \<le> d \<Longrightarrow>
    prompt \<and> pc (pin h) = Running \<longrightarrow> select_idle (pin h) \<and> (armed (pin h) \<longrightarrow> clock h + d \<le> due h) \<Longrightarrow>
    beat_step async prompt offers h (h\<lparr>clock := clock h + d\<rparr>)"
| fire: "armed (pin h) \<Longrightarrow> due h \<le> clock h \<Longrightarrow> beat_step async prompt offers h (expired h)"
| cancel: "beat_step async prompt offers h (cancelled h)"
| send: "d \<in> offers \<Longrightarrow> beat_step async prompt offers h (offered d h)"
| loop: "pc (pin h) = Running \<Longrightarrow> beat_loop async br h = Some h' \<Longrightarrow> beat_step async prompt offers h h'"

text \<open>The steps of the pinger itself are those of the untimed model, so its invariant carries over.\<close>

lemma beat_step_untimed:
  assumes "beat_step async prompt offers h h'"
  shows "pin h' = pin h \<or> pinger_step async (pin h) (pin h')"
  using assms
proof cases
  case fire
  then show ?thesis by (auto simp: armed_def expired_def intro: pinger_step.fire)
next
  case (loop br)
  then show ?thesis by (auto simp: beat_loop_def intro: pinger_step.loop split: option.splits)
qed (auto simp: cancelled_def offered_def intro: pinger_step.intros)

lemma beat_run_untimed:
  assumes "(beat_step async prompt offers)\<^sup>*\<^sup>* h h'" "pinger_reach async w (pin h)"
  shows "pinger_reach async w (pin h')"
  using assms
proof (induction rule: rtranclp_induct)
  case (step h1 h2)
  then show ?case using beat_step_untimed [OF step(2)] by (metis pinger_reach.step)
qed simp

text \<open>What a pass does, in each of the three cases.\<close>

definition rearmed :: "duration \<Rightarrow> heartbeat \<Rightarrow> heartbeat" where
  "rearmed i h = h\<lparr>pin := (pin h)\<lparr>interval := i, timer := Armed i\<rparr>, due := clock h + i\<rparr>"

lemma beat_loop_reset:
  assumes "timer_ready (pin h)" "pc (pin h) = Running" "resets (pin h) = d # rs"
  shows "beat_loop async CaseReset h =
    Some (rearmed (if d > 0 then d else interval (pin h)) (h\<lparr>pin := (pin h)\<lparr>resets := rs\<rparr>\<rparr>))"
  using assms by (auto simp: beat_loop_def Pinger_iter_def timer_ready_def rearmed_def Let_def)

lemma beat_loop_beat:
  assumes "timer (pin h) = Fired" "pc (pin h) = Running" "wr_write ping (out (pin h)) = (w, n, None)"
  shows "beat_loop async CaseTimer h =
    Some (rearmed (interval (pin h)) (h\<lparr>pin := (pin h)\<lparr>out := w\<rparr>, beats := beats h @ [clock h]\<rparr>))"
  using assms by (simp add: beat_loop_def Pinger_iter_def rearmed_def Let_def)

lemma beat_loop_cases:
  assumes "beat_loop async br h = Some h'" "timer_ready (pin h)" "pc (pin h) = Running"
  obtains (reset) d rs where "br = CaseReset" "resets (pin h) = d # rs"
      "h' = rearmed (if d > 0 then d else interval (pin h)) (h\<lparr>pin := (pin h)\<lparr>resets := rs\<rparr>\<rparr>)"
    | (beat) w n where "br = CaseTimer" "timer (pin h) = Fired" "wr_write ping (out (pin h)) = (w, n, None)"
      "h' = rearmed (interval (pin h)) (h\<lparr>pin := (pin h)\<lparr>out := w\<rparr>, beats := beats h @ [clock h]\<rparr>)"
    | (ended) "pc (pin h') \<noteq> Running" "clock h' = clock h" "beats h' = beats h"
        "ctx_done (pin h) \<or> snd (snd (wr_write ping (out (pin h)))) \<noteq> None"
proof (cases br)
  case CaseDone
  show ?thesis
    by (rule ended) (use assms CaseDone in \<open>auto simp: beat_loop_def Pinger_iter_def cleanup_def
        split: option.splits if_splits\<close>)
next
  case CaseReset
  then obtain d rs where "resets (pin h) = d # rs"
    using assms(1) by (auto simp: beat_loop_def Pinger_iter_def split: list.splits)
  then show ?thesis using reset beat_loop_reset [OF assms(2,3)] assms(1) CaseReset by auto
next
  case CaseTimer
  then have fired: "timer (pin h) = Fired"
    using assms(1) by (auto simp: beat_loop_def Pinger_iter_def split: if_splits)
  obtain w n e where w: "wr_write ping (out (pin h)) = (w, n, e)" by (metis prod_cases3)
  show ?thesis
  proof (cases e)
    case None
    then show ?thesis using beat beat_loop_beat [OF fired assms(3)] assms(1) w fired CaseTimer by auto
  next
    case (Some x)
    show ?thesis
      by (rule ended) (use assms(1) CaseTimer fired w Some in \<open>auto simp: beat_loop_def Pinger_iter_def cleanup_def Let_def\<close>)
  qed
next
  case CaseDefault
  then show ?thesis using assms(1) by (simp add: beat_loop_def Pinger_iter_def)
qed

lemma rearmed_simps [simp]:
  "clock (rearmed i h) = clock h" "beats (rearmed i h) = beats h" "due (rearmed i h) = clock h + i"
  "interval (pin (rearmed i h)) = i" "timer (pin (rearmed i h)) = Armed i"
  "resets (pin (rearmed i h)) = resets (pin h)" "ctx_done (pin (rearmed i h)) = ctx_done (pin h)"
  "out (pin (rearmed i h)) = out (pin h)" "pc (pin (rearmed i h)) = pc (pin h)"
  by (simp_all add: rearmed_def)

lemmas beat_env = expired_def offered_def cancelled_def

subsection \<open>Pings are never too close\<close>

text \<open>Two neighbours of a list of times are at least \<open>L\<close> apart.\<close>

definition spaced :: "duration \<Rightarrow> duration list \<Rightarrow> bool" where
  "spaced L ts \<longleftrightarrow> (\<forall>i. Suc i < length ts \<longrightarrow> ts ! i + L \<le> ts ! Suc i)"

lemma spaced_snoc: "spaced L (ts @ [t]) \<longleftrightarrow> spaced L ts \<and> (ts \<noteq> [] \<longrightarrow> last ts + L \<le> t)"
proof (cases ts rule: rev_cases)
  case Nil
  then show ?thesis by (simp add: spaced_def)
next
  case (snoc us u)
  have "spaced L ((us @ [u]) @ [t]) \<longleftrightarrow> (\<forall>i. Suc i < length (us @ [u]) \<longrightarrow> (us @ [u]) ! i + L \<le> (us @ [u]) ! Suc i) \<and> u + L \<le> t"
    unfolding spaced_def by (auto simp: nth_append less_Suc_eq split: if_splits)
  then show ?thesis by (simp add: snoc spaced_def)
qed

definition slow :: "duration \<Rightarrow> heartbeat \<Rightarrow> bool" where
  "slow L h \<longleftrightarrow> spaced L (beats h) \<and> (beats h \<noteq> [] \<longrightarrow> last (beats h) \<le> clock h) \<and>
     (pc (pin h) = Running \<longrightarrow>
        timer_ready (pin h) \<and> L \<le> interval (pin h) \<and> (\<forall>d\<in>set (resets (pin h)). d \<le> 0 \<or> L \<le> d) \<and>
        (beats h \<noteq> [] \<longrightarrow> (if armed (pin h) then last (beats h) + L \<le> due h else last (beats h) + L \<le> clock h)))"

lemma slow_step:
  assumes "beat_step async prompt offers h h'" "slow L h" "\<forall>d\<in>offers. d \<le> 0 \<or> L \<le> d"
  shows "slow L h'"
  using assms(1)
proof cases
  case (loop br)
  then have ready: "timer_ready (pin h)" using assms(2) by (simp add: slow_def)
  from loop(2) ready loop(1) show ?thesis
  proof (cases rule: beat_loop_cases)
    case (reset d rs)
    then show ?thesis using assms(2) loop(1)
      by (auto simp: slow_def rearmed_def timer_ready_def armed_def)
  next
    case (beat w n)
    then show ?thesis using assms(2) loop(1)
      by (auto simp: slow_def rearmed_def timer_ready_def armed_def spaced_snoc)
  next
    case ended
    then show ?thesis using assms(2) by (auto simp: slow_def)
  qed
qed (use assms(2,3) in \<open>auto simp: slow_def beat_env timer_ready_def armed_def split: if_splits\<close>)

text \<open>
  C15: Pings are never sent too fast.  If the first interval and every positive interval sent later are
  at least \<open>L\<close>, any two successive pings are at least \<open>L\<close> apart, whatever is delayed, however often the
  timer is reset, and whichever branches \<open>select\<close> picks.
\<close>

theorem pings_spaced:
  assumes "beat_start br done rs w t = Some h0" and "pc (pin h0) = Running \<longrightarrow> L \<le> interval (pin h0)"
    and "\<forall>d\<in>set rs \<union> offers. d \<le> 0 \<or> L \<le> d"
    and "(beat_step async prompt offers)\<^sup>*\<^sup>* h0 h" and "Suc i < length (beats h)"
  shows "beats h ! i + L \<le> beats h ! Suc i"
proof -
  obtain p where p: "Pinger_begin br done rs w = Some p" and h0: "h0 = \<lparr>pin = p, clock = t, due = t + interval p, beats = []\<rparr>"
    using assms(1) by (auto simp: beat_start_def split: option.splits)
  have "set (resets p) \<subseteq> set rs"
    using p by (auto simp: Pinger_begin_def Let_def split: branch.splits list.splits if_splits)
  then have "slow L h0"
    using begin_ready [OF p] assms(2,3) by (auto simp: slow_def h0 spaced_def)
  with assms(4) have "slow L h"
  proof (induction rule: rtranclp_induct)
    case (step h1 h2)
    then show ?case using slow_step [OF step(2)] assms(3) by auto
  qed
  then show ?thesis using assms(5) by (simp add: slow_def spaced_def)
qed

subsection \<open>Pings are regular\<close>

text \<open>After \<open>n\<close> pings at interval \<open>i\<close>, started at time \<open>t\<close>.\<close>

definition regular :: "writer \<Rightarrow> duration \<Rightarrow> duration \<Rightarrow> heartbeat \<Rightarrow> bool" where
  "regular w t i h \<longleftrightarrow>
     (let n = length (beats h) in
      beats h = map (\<lambda>k. t + int (Suc k) * i) [0..<n] \<and>
      (pc (pin h) = Running \<longrightarrow>
         resets (pin h) = [] \<and> timer_ready (pin h) \<and> interval (pin h) = i \<and> script (out (pin h)) = [] \<and>
         accepted (out (pin h)) = accepted w @ concat (replicate n ping) \<and>
         due h = t + int (Suc n) * i \<and> t + int n * i \<le> clock h \<and> clock h \<le> due h \<and>
         (timer (pin h) = Fired \<longrightarrow> clock h = due h)))"

lemma regular_step:
  assumes "beat_step async True {} h h'" "regular w t i h"
  shows "regular w t i h'"
  using assms(1)
proof cases
  case (delay d)
  then show ?thesis using assms(2)
    by (auto simp: regular_def Let_def select_idle_def timer_ready_def armed_def)
next
  case fire
  then show ?thesis using assms(2) by (auto simp: regular_def Let_def beat_env timer_ready_def)
next
  case cancel
  then show ?thesis using assms(2) by (auto simp: regular_def Let_def beat_env timer_ready_def)
next
  case (send d)
  then show ?thesis by simp
next
  case (loop br)
  then have inv: "timer_ready (pin h)" "resets (pin h) = []" "interval (pin h) = i" "script (out (pin h)) = []"
      "accepted (out (pin h)) = accepted w @ concat (replicate (length (beats h)) ping)"
      "due h = t + int (Suc (length (beats h))) * i" "timer (pin h) = Fired \<longrightarrow> clock h = due h" "0 < i"
      "beats h = map (\<lambda>k. t + int (Suc k) * i) [0..<length (beats h)]"
    using assms(2) by (auto simp: regular_def Let_def timer_ready_def)
  from loop(2) inv(1) loop(1) show ?thesis
  proof (cases rule: beat_loop_cases)
    case (reset d rs)
    then show ?thesis using inv by simp
  next
    case (beat v n)
    have v: "accepted v = accepted (out (pin h)) @ ping" "script v = []"
      using beat(3) inv(4) by auto
    have c: "clock h = t + int (Suc (length (beats h))) * i" using inv(6,7) beat(2) by simp
    have "beats h @ [clock h] = map (\<lambda>k. t + int (Suc k) * i) [0..<Suc (length (beats h))]"
      using inv(9) c by simp
    then show ?thesis
      using beat inv(2,3,5,8) v c loop(1) concat_replicate_snoc [of "length (beats h)" ping]
      by (simp add: regular_def Let_def rearmed_def timer_ready_def algebra_simps)
  next
    case ended
    then show ?thesis using assms(2) by (auto simp: regular_def Let_def)
  qed
qed

text \<open>
  Left alone, the pinger is regular.  When nothing delays it, no write fails and no interval is
  sent, the pings are written at exactly the multiples of the interval after the start, each once, and
  at any time while it runs none is missing.
\<close>

theorem pings_regular:
  assumes "beat_start br done rs w t = Some h0" and "resets (pin h0) = []" and "script w = []"
    and "(beat_step async True {})\<^sup>*\<^sup>* h0 h" and "pc (pin h) = Running"
  shows "let n = length (beats h); i = interval (pin h0) in
    beats h = map (\<lambda>k. t + int (Suc k) * i) [0..<n] \<and>
    accepted (out (pin h)) = accepted w @ concat (replicate n ping) \<and>
    t + int n * i \<le> clock h \<and> clock h \<le> t + int (Suc n) * i \<and> i > 0"
proof -
  obtain p where p: "Pinger_begin br done rs w = Some p" and h0: "h0 = \<lparr>pin = p, clock = t, due = t + interval p, beats = []\<rparr>"
    using assms(1) by (auto simp: beat_start_def split: option.splits)
  have "pc p = Running \<longrightarrow> timer p \<noteq> Fired"
    using p by (auto simp: Pinger_begin_def Let_def split: branch.splits if_splits list.splits)
  then have "regular w t (interval p) h0"
    using begin_ready [OF p] assms(2,3) by (auto simp: regular_def h0 Let_def timer_ready_def)
  with assms(4) have "regular w t (interval p) h"
    by (induction rule: rtranclp_induct) (auto intro: regular_step)
  then show ?thesis using assms(5) by (auto simp: regular_def Let_def h0 timer_ready_def)
qed

subsection \<open>Driving the pinger\<close>

text \<open>
  \<open>ExamplePinger\<close>: one round of \<open>receivePing\<close> sends a new interval if it is positive and then reads
  from the pipe, which lets the pinger's next \<open>Write\<close> through.  The pinger takes the interval and then
  waits for its timer, so the round is the run written out here; \<open>round_ms\<close> is
  \<open>Round(100*time.Millisecond)\<close>.
\<close>

definition ms :: duration where
  "ms = 1000000"

definition round_ms :: "duration \<Rightarrow> duration" where
  "round_ms d = (d + 50 * ms) div (100 * ms) * (100 * ms)"

datatype example_line = RunLine nat | ResettingTimer duration | ReadLine "byte list" duration

definition receivePing :: "bool \<Rightarrow> duration \<Rightarrow> heartbeat \<Rightarrow> (heartbeat \<times> example_line list) option" where
  "receivePing async d h =
     (case (if d > 0 then beat_loop async CaseReset (offered d h) else Some h) of
        None \<Rightarrow> None
      | Some h1 \<Rightarrow>
          (case beat_loop async CaseTimer (expired (h1\<lparr>clock := due h1\<rparr>)) of
             None \<Rightarrow> None
           | Some h2 \<Rightarrow>
               Some (h2, (if d > 0 then [ResettingTimer d] else []) @
                 [ReadLine (drop (length (accepted (out (pin h)))) (accepted (out (pin h2))))
                    (round_ms (clock h2 - clock h))])))"

fun example_rounds ::
  "bool \<Rightarrow> nat \<Rightarrow> duration list \<Rightarrow> heartbeat \<Rightarrow> (heartbeat \<times> example_line list) option" where
  "example_rounds async i [] h = Some (h, [])"
| "example_rounds async i (v # vs) h =
     (case receivePing async (v * ms) h of
        None \<Rightarrow> None
      | Some (h, ls) \<Rightarrow>
          (case example_rounds async (Suc i) vs h of
             None \<Rightarrow> None
           | Some (h, ls') \<Rightarrow> Some (h, RunLine (Suc i) # ls @ ls')))"

definition ExamplePinger :: "bool \<Rightarrow> duration \<Rightarrow> (heartbeat \<times> example_line list) option" where
  "ExamplePinger async t =
     (case beat_start CaseReset False [1 * second] new_writer t of
        None \<Rightarrow> None
      | Some h \<Rightarrow>
          (case example_rounds async 0 [0, 200, 300, 0, - 1, - 1, - 1] h of
             None \<Rightarrow> None
           | Some (h, ls) \<Rightarrow>
               (case beat_loop async CaseDone (cancelled h) of
                  None \<Rightarrow> None
                | Some h \<Rightarrow> Some (h, ls))))"

text \<open>Right after the timer was set, with nothing pending and a working writer.\<close>

definition at_rest :: "heartbeat \<Rightarrow> bool" where
  "at_rest h \<longleftrightarrow> pc (pin h) = Running \<and> interval (pin h) > 0 \<and> timer (pin h) = Armed (interval (pin h)) \<and>
     resets (pin h) = [] \<and> \<not> ctx_done (pin h) \<and> script (out (pin h)) = [] \<and>
     due h = clock h + interval (pin h)"

lemma wait_run:
  assumes "at_rest h" "0 < i" "h1 = rearmed i h"
  shows "(beat_step async True offers)\<^sup>*\<^sup>* h1 (expired (h1\<lparr>clock := due h1\<rparr>))"
proof -
  have "beat_step async True offers h1 (h1\<lparr>clock := clock h1 + i\<rparr>)"
    by (rule beat_step.delay) (use assms in \<open>auto simp: at_rest_def select_idle_def\<close>)
  moreover have "beat_step async True offers (h1\<lparr>clock := due h1\<rparr>) (expired (h1\<lparr>clock := due h1\<rparr>))"
    by (rule beat_step.fire) (auto simp: assms(3) armed_def)
  moreover have "h1\<lparr>clock := clock h1 + i\<rparr> = h1\<lparr>clock := due h1\<rparr>" by (simp add: assms(3))
  ultimately show ?thesis by (metis rtranclp.rtrancl_into_rtrancl rtranclp.rtrancl_refl)
qed

lemma rearmed_at_rest: "at_rest h \<Longrightarrow> rearmed (interval (pin h)) h = h"
  by (cases h; cases "pin h") (simp add: at_rest_def rearmed_def)

text \<open>
  One round: the ping arrives exactly one interval later, the interval being the one just sent, or the
  old one; and the round is a prompt run.
\<close>

lemma receivePing_round:
  assumes "at_rest h" and "d \<in> offers \<or> d \<le> 0"
  defines "i \<equiv> (if d > 0 then d else interval (pin h))"
  shows "\<exists>h'. receivePing async d h =
      Some (h', (if d > 0 then [ResettingTimer d] else []) @ [ReadLine ping (round_ms i)]) \<and>
    at_rest h' \<and> interval (pin h') = i \<and> clock h' = clock h + i \<and> beats h' = beats h @ [clock h + i] \<and>
    (beat_step async True offers)\<^sup>*\<^sup>* h h'"
proof -
  have i: "0 < i" using assms(1) by (auto simp: i_def at_rest_def)
  let ?h1 = "rearmed i h"
  have h1: "(if d > 0 then beat_loop async CaseReset (offered d h) else Some h) = Some ?h1"
    using assms(1) rearmed_at_rest [of h]
    by (auto simp: i_def at_rest_def beat_env rearmed_def beat_loop_reset timer_ready_def)
  have r1: "(beat_step async True offers)\<^sup>*\<^sup>* h ?h1"
  proof (cases "d > 0")
    case True
    then have "beat_step async True offers h (offered d h)" using assms(2) by (auto intro: beat_step.send)
    moreover have "beat_step async True offers (offered d h) ?h1"
      using h1 True assms(1) by (auto intro!: beat_step.loop simp: at_rest_def beat_env)
    ultimately show ?thesis by (metis rtranclp.rtrancl_into_rtrancl rtranclp.rtrancl_refl)
  next
    case False
    then show ?thesis using rearmed_at_rest [OF assms(1)] by (simp add: i_def)
  qed
  let ?h2 = "expired (?h1\<lparr>clock := due ?h1\<rparr>)"
  let ?w = "(out (pin h))\<lparr>accepted := accepted (out (pin h)) @ ping\<rparr>"
  let ?h3 = "rearmed i (?h2\<lparr>pin := (pin ?h2)\<lparr>out := ?w\<rparr>, beats := beats ?h2 @ [clock ?h2]\<rparr>)"
  have w: "wr_write ping (out (pin ?h2)) = (?w, length ping, None)"
    using assms(1) by (simp add: at_rest_def beat_env)
  have h3: "beat_loop async CaseTimer ?h2 = Some ?h3"
    using beat_loop_beat [OF _ _ w, of async] assms(1) by (simp add: at_rest_def beat_env)
  then have "beat_step async True offers ?h2 ?h3"
    using assms(1) by (auto intro!: beat_step.loop simp: at_rest_def beat_env)
  with r1 wait_run [OF assms(1) i refl, of async offers] have run: "(beat_step async True offers)\<^sup>*\<^sup>* h ?h3"
    by (meson rtranclp.rtrancl_into_rtrancl rtranclp_trans)
  have "receivePing async d h =
      Some (?h3, (if d > 0 then [ResettingTimer d] else []) @ [ReadLine ping (round_ms i)])"
    unfolding receivePing_def h1 option.case h3 using assms(1) by (simp add: beat_env)
  moreover have "at_rest ?h3" using assms(1) i by (simp add: at_rest_def beat_env)
  ultimately show ?thesis using run by (intro exI [of _ ?h3]) (simp add: beat_env)
qed

text \<open>The intervals of successive rounds.\<close>

fun round_intervals :: "duration \<Rightarrow> duration list \<Rightarrow> duration list" where
  "round_intervals i [] = []"
| "round_intervals i (d # ds) = (let i = (if d > 0 then d else i) in i # round_intervals i ds)"

fun round_lines :: "nat \<Rightarrow> duration list \<Rightarrow> duration list \<Rightarrow> example_line list" where
  "round_lines k (d # ds) (i # is) =
     RunLine (Suc k) # (if d > 0 then [ResettingTimer d] else []) @ ReadLine ping (round_ms i) # round_lines (Suc k) ds is"
| "round_lines k ds is = []"

lemma rounds_run:
  assumes "at_rest h" and "\<forall>v\<in>set vs. v * ms \<in> offers \<or> v \<le> 0"
  shows "\<exists>h'. example_rounds async k vs h =
      Some (h', round_lines k (map (\<lambda>v. v * ms) vs) (round_intervals (interval (pin h)) (map (\<lambda>v. v * ms) vs))) \<and>
    at_rest h' \<and> length (beats h') = length (beats h) + length vs \<and> (beat_step async True offers)\<^sup>*\<^sup>* h h'"
  using assms
proof (induction vs arbitrary: h k)
  case Nil
  then show ?case by auto
next
  case (Cons v vs)
  let ?i = "if v * ms > 0 then v * ms else interval (pin h)"
  have "v * ms \<in> offers \<or> v * ms \<le> 0" using Cons.prems(2) by (auto simp: ms_def)
  from receivePing_round [OF Cons.prems(1) this, of async] obtain h1 where
    h1: "receivePing async (v * ms) h =
      Some (h1, (if v * ms > 0 then [ResettingTimer (v * ms)] else []) @ [ReadLine ping (round_ms ?i)])"
    and rest: "at_rest h1" "interval (pin h1) = ?i" "beats h1 = beats h @ [clock h + ?i]"
    and run: "(beat_step async True offers)\<^sup>*\<^sup>* h h1" by blast
  from Cons.IH [OF rest(1), of "Suc k"] Cons.prems(2) obtain h2 where
    "example_rounds async (Suc k) vs h1 =
      Some (h2, round_lines (Suc k) (map (\<lambda>v. v * ms) vs) (round_intervals ?i (map (\<lambda>v. v * ms) vs)))"
    "at_rest h2" "length (beats h2) = length (beats h1) + length vs" "(beat_step async True offers)\<^sup>*\<^sup>* h1 h2"
    using rest(2) by auto
  then show ?case
    using h1 rest(3) run by (intro exI [of _ h2]) (auto simp: Let_def)
qed

lemma begin_at_rest:
  "d > 0 \<Longrightarrow> beat_start CaseReset False [d] new_writer t =
     Some \<lparr>pin = \<lparr>interval = d, timer = Armed d, ctx_done = False, resets = [], out = new_writer, pc = Running\<rparr>,
           clock = t, due = t + d, beats = []\<rparr>"
  by (simp add: beat_start_def Pinger_begin_def)

lemma cancelled_ends:
  assumes "at_rest h"
  shows "\<exists>h'. beat_loop async CaseDone (cancelled h) = Some h' \<and> pc (pin h') = Finished \<and>
    beats h' = beats h \<and> (beat_step async True offers)\<^sup>*\<^sup>* h h'"
proof -
  obtain h' where h': "beat_loop async CaseDone (cancelled h) = Some h'" "pc (pin h') = Finished" "beats h' = beats h"
    using assms by (auto simp: beat_loop_def Pinger_iter_def cleanup_def at_rest_def beat_env)
  have "beat_step async True offers h (cancelled h)" by (rule beat_step.cancel)
  moreover have "beat_step async True offers (cancelled h) h'"
    using h'(1) assms by (auto intro!: beat_step.loop simp: at_rest_def beat_env)
  ultimately have "(beat_step async True offers)\<^sup>*\<^sup>* h h'" by auto
  with h' show ?thesis by blast
qed

text \<open>
  C29: \<open>ExamplePinger\<close> ends: it reads seven pings, the first after the second it was started with, then
  after 200 and 300 milliseconds as the interval is changed, and then every 300 milliseconds, since
  an interval that is not positive changes nothing; cancelling the context then ends the pinger.  The
  same holds for both meanings of \<open>Stop\<close>.
\<close>

theorem example_pinger_output:
  "\<exists>h0 h. beat_start CaseReset False [1 * second] new_writer t = Some h0 \<and>
    ExamplePinger async t = Some (h,
      [RunLine 1, ReadLine ping (1000 * ms),
       RunLine 2, ResettingTimer (200 * ms), ReadLine ping (200 * ms),
       RunLine 3, ResettingTimer (300 * ms), ReadLine ping (300 * ms),
       RunLine 4, ReadLine ping (300 * ms), RunLine 5, ReadLine ping (300 * ms),
       RunLine 6, ReadLine ping (300 * ms), RunLine 7, ReadLine ping (300 * ms)]) \<and>
    pc (pin h) = Finished \<and> length (beats h) = 7 \<and>
    (beat_step async True {200 * ms, 300 * ms})\<^sup>*\<^sup>* h0 h"
proof -
  let ?vs = "[0, 200, 300, 0, - 1, - 1, - 1] :: int list" and ?offers = "{200 * ms, 300 * ms}"
  obtain h0 where h0: "beat_start CaseReset False [1 * second] new_writer t = Some h0"
    and rest: "at_rest h0" "interval (pin h0) = 1 * second" "beats h0 = []"
    using begin_at_rest [of "1 * second" t] by (auto simp: at_rest_def second_def new_writer_def)
  have "\<forall>v\<in>set ?vs. v * ms \<in> ?offers \<or> v \<le> 0" by (simp add: ms_def)
  from rounds_run [OF rest(1) this, of async 0] obtain h1 where
    h1: "example_rounds async 0 ?vs h0 =
      Some (h1, round_lines 0 (map (\<lambda>v. v * ms) ?vs) (round_intervals (1 * second) (map (\<lambda>v. v * ms) ?vs)))"
    and rest1: "at_rest h1" "length (beats h1) = 7" "(beat_step async True ?offers)\<^sup>*\<^sup>* h0 h1"
    using rest by auto
  from cancelled_ends [OF rest1(1), of async ?offers] obtain h2 where
    h2: "beat_loop async CaseDone (cancelled h1) = Some h2" "pc (pin h2) = Finished" "beats h2 = beats h1"
      "(beat_step async True ?offers)\<^sup>*\<^sup>* h1 h2" by blast
  have lines: "round_lines 0 (map (\<lambda>v. v * ms) ?vs) (round_intervals (1 * second) (map (\<lambda>v. v * ms) ?vs)) =
      [RunLine 1, ReadLine ping (1000 * ms),
       RunLine 2, ResettingTimer (200 * ms), ReadLine ping (200 * ms),
       RunLine 3, ResettingTimer (300 * ms), ReadLine ping (300 * ms),
       RunLine 4, ReadLine ping (300 * ms), RunLine 5, ReadLine ping (300 * ms),
       RunLine 6, ReadLine ping (300 * ms), RunLine 7, ReadLine ping (300 * ms)]"
    by (simp add: Let_def ms_def second_def round_ms_def)
  have "ExamplePinger async t = Some (h2, round_lines 0 (map (\<lambda>v. v * ms) ?vs)
      (round_intervals (1 * second) (map (\<lambda>v. v * ms) ?vs)))"
    unfolding ExamplePinger_def h0 option.case h1 prod.case h2(1) ..
  moreover have "(beat_step async True ?offers)\<^sup>*\<^sup>* h0 h2" using rest1(3) h2(4) by (rule rtranclp_trans)
  ultimately show ?thesis using h0 h2(2,3) rest1(2) unfolding lines by auto
qed

subsection \<open>Concrete runs\<close>

theorem pings_spaced_witness:
  "\<exists>h0 h. beat_start CaseReset False [1 * second] new_writer 0 = Some h0 \<and>
    (beat_step False True {200 * ms})\<^sup>*\<^sup>* h0 h \<and> length (beats h) = 2 \<and>
    beats h ! 0 + 200 * ms \<le> beats h ! Suc 0"
proof -
  obtain h0 where h0: "beat_start CaseReset False [1 * second] new_writer 0 = Some h0"
    and rest: "at_rest h0" "interval (pin h0) = 1 * second" "beats h0 = []"
    using begin_at_rest [of "1 * second" 0] by (auto simp: at_rest_def second_def new_writer_def)
  have "\<forall>v\<in>set [0, 200]. v * ms \<in> {200 * ms} \<or> v \<le> 0" by simp
  from rounds_run [OF rest(1) this, of False 0] obtain h where
    h: "length (beats h) = length (beats h0) + length [0, 200 :: int]" "(beat_step False True {200 * ms})\<^sup>*\<^sup>* h0 h"
    by blast
  then have l: "length (beats h) = 2" using rest(3) by simp
  have "beats h ! 0 + 200 * ms \<le> beats h ! Suc 0"
    by (rule pings_spaced [OF h0 _ _ h(2)]) (use l rest(2) in \<open>auto simp: ms_def second_def\<close>)
  with h0 h(2) l show ?thesis by blast
qed

theorem pings_regular_witness:
  "\<exists>h0 h. beat_start CaseReset False [1 * second] new_writer 0 = Some h0 \<and>
    (beat_step True True {})\<^sup>*\<^sup>* h0 h \<and> beats h = [1 * second] \<and> accepted (out (pin h)) = ping"
proof -
  obtain h0 where h0: "beat_start CaseReset False [1 * second] new_writer 0 = Some h0"
    and rest: "at_rest h0" "interval (pin h0) = 1 * second" "beats h0 = []" "resets (pin h0) = []"
    using begin_at_rest [of "1 * second" 0] by (auto simp: at_rest_def second_def new_writer_def)
  have "(0 :: duration) \<in> {} \<or> (0 :: duration) \<le> 0" by simp
  from receivePing_round [OF rest(1) this, of True] obtain h where
    h: "at_rest h" "length (beats h) = 1" "(beat_step True True {})\<^sup>*\<^sup>* h0 h"
    using rest(3) by auto
  have "script new_writer = []" "pc (pin h) = Running" using h(1) by (simp_all add: new_writer_def at_rest_def)
  from pings_regular [OF h0 rest(4) this(1) h(3) this(2)] h h0 rest(2)
  show ?thesis by (auto simp: Let_def new_writer_def)
qed

end
