(* ===== verification/Echo.thy ===== *)
theory Echo
  imports Writers
begin

text \<open>
  The echo servers: chapter5/echo.go (UDP), chapter7/server.go (any stream or datagram network) and
  chapter11/server.go (TLS).  A connection is the stream its client sends and the writer towards it;
  \<open>Accept\<close> is a list of results that ends when the listener is closed, which is also what cancelling
  the context does; a datagram socket is a list of events.  Loading a key pair and the TLS handshake
  belong to crypto/tls.
\<close>

subsection \<open>Streams\<close>

text \<open>The loop of a connection's goroutine in \<open>streamingEchoServer\<close>.\<close>

function echo_conn :: "reader \<Rightarrow> writer \<Rightarrow> reader \<times> writer" where
  "echo_conn r w =
     (case rd_read 1024 r of
        (r', p, Some err) \<Rightarrow> (r', w)
      | (r', p, None) \<Rightarrow>
          (case wr_write p w of
             (w', _, Some err) \<Rightarrow> (r', w')
           | (w', _, None) \<Rightarrow> echo_conn r' w'))"
  by pat_completeness auto
termination
  by (relation "measure (\<lambda>(r, w). remaining r)") (auto intro: rd_read_remaining [OF sym])

declare echo_conn.simps [simp del]

text \<open>
  The loop of \<open>ServeTLS\<close>: with a positive \<open>maxIdle\<close> each pass first sets the deadline, which may
  fail; \<open>dl\<close> holds the outcomes of the next calls (all well when it is used up).
\<close>

definition next_deadline :: "go_error option list \<Rightarrow> go_error option \<times> go_error option list" where
  "next_deadline dl = (case dl of [] \<Rightarrow> (None, []) | d # ds \<Rightarrow> (d, ds))"

function tls_conn :: "duration \<Rightarrow> go_error option list \<Rightarrow> reader \<Rightarrow> writer \<Rightarrow> reader \<times> writer" where
  "tls_conn maxIdle dl r w =
     (let (derr, dl) = (if maxIdle > 0 then next_deadline dl else (None, dl)) in
      if derr \<noteq> None then (r, w)
      else (case rd_read 1024 r of
              (r', p, Some err) \<Rightarrow> (r', w)
            | (r', p, None) \<Rightarrow>
                (case wr_write p w of
                   (w', _, Some err) \<Rightarrow> (r', w')
                 | (w', _, None) \<Rightarrow> tls_conn maxIdle dl r' w')))"
  by pat_completeness auto
termination
  by (relation "measure (\<lambda>(maxIdle, dl, r, w). remaining r)") (auto intro: rd_read_remaining [OF sym])

declare tls_conn.simps [simp del]

lemma echo_conn_prefix:
  assumes "echo_conn r w = (r', w')"
  shows "\<exists>k \<le> length (stream r). accepted w' = accepted w @ take k (stream r) \<and>
    (script w = [] \<longrightarrow> k = length (stream r) \<and> stream r' = [])"
  using assms
proof (induction r w arbitrary: r' w' rule: echo_conn.induct)
  case (1 r w)
  obtain r1 p er where rd: "rd_read 1024 r = (r1, p, er)" by (metis prod_cases3)
  have str: "stream r = p @ stream r1" using stream_rd_read [of r 1024] rd by simp
  show ?case
  proof (cases er)
    case (Some e)
    then have "stream r = []" "stream r1 = []" using rd by (auto simp: rd_read_def stream_def split: list.splits)
    then show ?thesis using 1(2) rd Some by (subst (asm) echo_conn.simps) auto
  next
    case er: None
    obtain w1 n e where wr: "wr_write p w = (w1, n, e)" by (metis prod_cases3)
    then obtain k where k: "k \<le> length p" "accepted w1 = accepted w @ take k p"
      using wr_write_accepted [of p w] by auto
    show ?thesis
    proof (cases e)
      case (Some x)
      then have "script w \<noteq> []" using wr by auto
      then show ?thesis using 1(2) rd er wr Some k str
        by (subst (asm) echo_conn.simps) (auto intro!: exI [of _ k])
    next
      case None
      then have whole: "accepted w1 = accepted w @ p" using wr wr_write_ok by blast
      have sc: "script w = [] \<longrightarrow> script w1 = []" using wr by auto
      have "echo_conn r1 w1 = (r', w')" using 1(2) rd er wr None by (subst (asm) echo_conn.simps) simp
      from 1(1) [OF rd [symmetric] refl er wr [symmetric] refl None this] obtain j where
        "j \<le> length (stream r1)" "accepted w' = accepted w1 @ take j (stream r1)"
        "script w1 = [] \<longrightarrow> j = length (stream r1) \<and> stream r' = []" by auto
      with whole sc str show ?thesis by (intro exI [of _ "length p + j"]) auto
    qed
  qed
qed

lemma tls_conn_no_deadline: "maxIdle \<le> 0 \<or> dl = [] \<Longrightarrow> tls_conn maxIdle dl r w = echo_conn r w"
proof (induction maxIdle dl r w rule: tls_conn.induct)
  case (1 maxIdle dl r w)
  have d: "(if maxIdle > 0 then next_deadline dl else (None, dl)) = (None, dl)"
    using 1(2) by (auto simp: next_deadline_def)
  show ?case
    using 1(1) [OF d [symmetric]] 1(2) d
    by (subst tls_conn.simps, subst echo_conn.simps) (auto split: prod.splits option.splits)
qed

text \<open>What the loop sends back, whatever becomes of the deadlines.\<close>

lemma tls_conn_prefix:
  assumes "tls_conn maxIdle dl r w = (r', w')"
  shows "\<exists>k \<le> length (stream r). accepted w' = accepted w @ take k (stream r)"
  using assms
proof (induction maxIdle dl r w arbitrary: r' w' rule: tls_conn.induct)
  case (1 maxIdle dl r w)
  obtain derr ds where d: "(if maxIdle > 0 then next_deadline dl else (None, dl)) = (derr, ds)"
    by (metis prod.exhaust)
  obtain r1 p er where rd: "rd_read 1024 r = (r1, p, er)" by (metis prod_cases3)
  obtain w1 n e where wr: "wr_write p w = (w1, n, e)" by (metis prod_cases3)
  have str: "stream r = p @ stream r1" using stream_rd_read [of r 1024] rd by simp
  show ?case
  proof (cases "derr = None \<and> er = None \<and> e = None")
    case False
    obtain k where "k \<le> length p" "accepted w1 = accepted w @ take k p"
      using wr_write_accepted [of p w] wr by auto
    then show ?thesis
      using 1(2) d rd wr str False by (subst (asm) tls_conn.simps)
        (auto split: option.splits if_splits intro: exI [of _ 0] exI [of _ k])
  next
    case True
    then have "accepted w1 = accepted w @ p" using wr wr_write_ok by blast
    moreover have "tls_conn maxIdle ds r1 w1 = (r', w')"
      using 1(2) d rd wr True by (subst (asm) tls_conn.simps) simp
    then obtain j where "j \<le> length (stream r1)" "accepted w' = accepted w1 @ take j (stream r1)"
      using 1(1) [OF refl d [symmetric] _ rd [symmetric] refl _ wr [symmetric] refl _, of r' w'] True by auto
    ultimately show ?thesis using str by (intro exI [of _ "length p + j"]) auto
  qed
qed

lemma tls_conn_echoes:
  "\<exists>k \<le> length (stream r). accepted (snd (tls_conn maxIdle dl r w)) = accepted w @ take k (stream r) \<and>
    ((maxIdle \<le> 0 \<or> dl = []) \<and> script w = [] \<longrightarrow> k = length (stream r))"
proof (cases "maxIdle \<le> 0 \<or> dl = []")
  case True
  then show ?thesis
    using echo_conn_prefix [of r w] tls_conn_no_deadline [OF True, of r w] by (cases "echo_conn r w") auto
next
  case False
  then show ?thesis using tls_conn_prefix [of maxIdle dl r w] by (cases "tls_conn maxIdle dl r w") auto
qed

text \<open>The accept loop: one goroutine per connection, until \<open>Accept\<close> fails.\<close>

fun accept_loop :: "'c result list \<Rightarrow> 'c list \<times> go_error option" where
  "accept_loop [] = ([], None)"
| "accept_loop (Inl err # as) = ([], Some err)"
| "accept_loop (Inr conn # as) = (case accept_loop as of (cs, e) \<Rightarrow> (conn # cs, e))"

fun accepted_conn :: "'c result \<Rightarrow> bool" where
  "accepted_conn (Inl err) \<longleftrightarrow> False"
| "accepted_conn (Inr conn) \<longleftrightarrow> True"

text \<open>
  \<open>streamingEchoServer\<close>: the address it returns, and each connection after its goroutine has ended.
\<close>

definition streamingEchoServer ::
  "(string \<Rightarrow> string \<Rightarrow> string result) \<Rightarrow> string \<Rightarrow> string \<Rightarrow> (reader \<times> writer) result list \<Rightarrow>
   string result \<times> (reader \<times> writer) list" where
  "streamingEchoServer listen network address as =
     (case listen network address of
        Inl err \<Rightarrow> (Inl err, [])
      | Inr laddr \<Rightarrow> (Inr laddr, map (\<lambda>(r, w). echo_conn r w) (fst (accept_loop as))))"

lemma accept_loop_conns: "fst (accept_loop as) = map projr (takeWhile accepted_conn as)"
  by (induction as rule: accept_loop.induct) (simp_all add: prod.case_eq_if)

text \<open>
  C28: The stream echo server terminates on every connection and sends back a prefix of what the client
  sent, the whole of it when no write fails; the connections served are those accepted before the
  first error of \<open>Accept\<close>, each independently of the others.
\<close>

theorem stream_echo_server:
  assumes "streamingEchoServer listen network address as = (Inr laddr, served)"
    and "i < length (takeWhile accepted_conn as)" and "as ! i = Inr (r, w)"
  shows "length served = length (takeWhile accepted_conn as) \<and>
    (\<exists>r' w'. served ! i = (r', w') \<and>
       prefix (accepted w) (accepted w') \<and> prefix (accepted w') (accepted w @ stream r) \<and>
       (script w = [] \<longrightarrow> accepted w' = accepted w @ stream r))"
proof -
  have served: "served = map (\<lambda>(r, w). echo_conn r w) (map projr (takeWhile accepted_conn as))"
    using assms(1) by (auto simp: streamingEchoServer_def accept_loop_conns comp_def split: sum.splits)
  have "takeWhile accepted_conn as ! i = Inr (r, w)" using assms(2,3) by (simp add: takeWhile_nth)
  then have "served ! i = echo_conn r w" using served assms(2) by simp
  moreover obtain r' w' where e: "echo_conn r w = (r', w')" by (cases "echo_conn r w")
  moreover obtain k where "accepted w' = accepted w @ take k (stream r)"
    "script w = [] \<longrightarrow> k = length (stream r)"
    using echo_conn_prefix [OF e] by auto
  ultimately show ?thesis using served by (auto simp: take_is_prefix)
qed

definition client_conn :: "byte list list \<Rightarrow> reader \<times> writer" where
  "client_conn cs = (\<lparr>chunks = cs, fin = EOF, end_first = False\<rparr>, new_writer)"

theorem stream_echo_server_witness:
  "\<exists>served r' w'. streamingEchoServer (\<lambda>n a. Inr a) ''tcp'' ''127.0.0.1:'' [Inr (client_conn [[1, 2], [3]]), Inl EOF] =
     (Inr ''127.0.0.1:'', served) \<and> served ! 0 = (r', w') \<and> accepted w' = [1, 2, 3]"
proof -
  let ?as = "[Inr (client_conn [[1, 2], [3]]), Inl EOF]"
  obtain served where s: "streamingEchoServer (\<lambda>n a. Inr a) ''tcp'' ''127.0.0.1:'' ?as = (Inr ''127.0.0.1:'', served)"
    by (simp add: streamingEchoServer_def)
  have "\<exists>r' w'. served ! 0 = (r', w') \<and> accepted w' = [1, 2, 3]"
    using stream_echo_server [OF s, where i = 0 and r = "fst (client_conn [[1, 2], [3]])"
        and w = "snd (client_conn [[1, 2], [3]])"]
    by (auto simp: client_conn_def new_writer_def stream_def)
  with s show ?thesis by blast
qed

subsection \<open>Datagrams\<close>

text \<open>
  One pass of the loop: \<open>ReadFrom\<close> fails, or delivers a datagram (cut off at the buffer's 1024
  bytes) with its sender's address, and the outcome of \<open>WriteTo\<close>.
\<close>

datatype 'a socket_event = ReadFails go_error | Packet "byte list" 'a "go_error option"

fun datagram_loop :: "byte list \<Rightarrow> 'a socket_event list \<Rightarrow> ('a \<times> byte list) list" where
  "datagram_loop buf [] = []"
| "datagram_loop buf (ReadFails err # evs) = []"
| "datagram_loop buf (Packet pkt clientAddr werr # evs) =
     (let n = min (length pkt) (length buf); buf = overlay pkt buf in
      (clientAddr, take n buf) # (if werr \<noteq> None then [] else datagram_loop buf evs))"

definition echoServerUDP ::
  "(string \<Rightarrow> string result) \<Rightarrow> string \<Rightarrow> 'a socket_event list \<Rightarrow> string result \<times> ('a \<times> byte list) list" where
  "echoServerUDP listen_udp addr evs =
     (case listen_udp addr of
        Inl err \<Rightarrow> (Inl (Wrapped (''binding to udp '' @ addr) err), [])
      | Inr laddr \<Rightarrow> (Inr laddr, datagram_loop (replicate 1024 0) evs))"

text \<open>\<open>datagramEchoServer\<close>, with the files it removes when the context is cancelled.\<close>

definition datagramEchoServer ::
  "(string \<Rightarrow> string \<Rightarrow> string result) \<Rightarrow> string \<Rightarrow> string \<Rightarrow> bool \<Rightarrow> 'a socket_event list \<Rightarrow>
   string result \<times> ('a \<times> byte list) list \<times> string list" where
  "datagramEchoServer listen network addr cancelled evs =
     (case listen network addr of
        Inl err \<Rightarrow> (Inl err, [], [])
      | Inr laddr \<Rightarrow>
          (Inr laddr, datagram_loop (replicate 1024 0) evs,
           if cancelled \<and> network = ''unixgram'' then [addr] else []))"

text \<open>The events before the first error, with the one whose answer failed.\<close>

fun answered :: "'a socket_event list \<Rightarrow> (byte list \<times> 'a) list" where
  "answered [] = []"
| "answered (ReadFails err # evs) = []"
| "answered (Packet pkt a werr # evs) = (pkt, a) # (if werr \<noteq> None then [] else answered evs)"

lemma take_overlay: "take (min (length p) (length b)) (overlay p b) = take (length b) p"
  by (cases "length p \<le> length b") (auto simp: overlay_def)

lemma datagram_loop_answered:
  "datagram_loop buf evs = map (\<lambda>(pkt, a). (a, take (length buf) pkt)) (answered evs)"
  by (induction buf evs rule: datagram_loop.induct) (auto simp: Let_def take_overlay)

text \<open>
  Both datagram servers send every datagram back to the address it came from, in order, cut off
  after 1024 bytes and never with bytes of an earlier datagram, until the first error; one failed
  answer ends the service for all clients.
\<close>

theorem datagram_echo_servers:
  "(case echoServerUDP listen_udp addr evs of
      (Inr _, sent) \<Rightarrow> sent = map (\<lambda>(pkt, a). (a, take 1024 pkt)) (answered evs)
    | (Inl e, sent) \<Rightarrow> sent = [] \<and> (\<exists>e'. e = Wrapped (''binding to udp '' @ addr) e')) \<and>
   (case datagramEchoServer listen network addr cancelled evs of
      (Inr _, sent, removed) \<Rightarrow>
        sent = map (\<lambda>(pkt, a). (a, take 1024 pkt)) (answered evs) \<and>
        (addr \<in> set removed) = (cancelled \<and> network = ''unixgram'')
    | (Inl e, sent, removed) \<Rightarrow> sent = [] \<and> removed = [])"
  by (simp add: echoServerUDP_def datagramEchoServer_def datagram_loop_answered split: sum.splits)

subsection \<open>The TLS server\<close>

text \<open>
  A certificate is any value.  The configuration is shared with the caller through its pointer, so
  \<open>ServeTLS\<close> gives back the configuration as it leaves it.  \<open>Ready\<close> returns when its channel is nil or
  closed.
\<close>

record 'cert tls_config =
  Certificates :: "'cert list"
  GetCertificate :: bool
  only_P256 :: bool
  MinVersion :: nat
  PreferServerCipherSuites :: bool

definition VersionTLS12 :: nat where
  "VersionTLS12 = 0x0303"

definition default_tls_config :: "'cert tls_config" where
  "default_tls_config =
     \<lparr>Certificates = [], GetCertificate = False, only_P256 = True, MinVersion = VersionTLS12,
      PreferServerCipherSuites = True\<rparr>"

datatype channel = NilChannel | OpenChannel | ClosedChannel

record 'cert tls_server =
  has_ctx :: bool
  ready :: channel
  tls_addr :: string
  maxIdle :: duration
  tlsConfig :: "'cert tls_config option"

definition NewTLSServer :: "bool \<Rightarrow> string \<Rightarrow> duration \<Rightarrow> 'cert tls_config option \<Rightarrow> 'cert tls_server" where
  "NewTLSServer ctx address idle cfg =
     \<lparr>has_ctx = ctx, ready = OpenChannel, tls_addr = address, maxIdle = idle, tlsConfig = cfg\<rparr>"

definition Ready_returns :: "'cert tls_server \<Rightarrow> bool" where
  "Ready_returns s \<longleftrightarrow> ready s \<noteq> OpenChannel"

datatype serve_end = Served "go_error option" | CloseOfClosed

text \<open>
  \<open>load\<close> is \<open>tls.LoadX509KeyPair\<close>, \<open>show_err\<close> is \<open>%v\<close>.  The result is the server's channel and
  configuration afterwards, the connections handed to goroutines, and how the function ended
  (\<open>Served None\<close>: still accepting).
\<close>

definition ServeTLS ::
  "(go_error \<Rightarrow> string) \<Rightarrow> (string \<Rightarrow> string \<Rightarrow> 'cert result) \<Rightarrow> 'cert tls_server \<Rightarrow> 'c result list \<Rightarrow>
   string \<Rightarrow> string \<Rightarrow> 'cert tls_server \<times> 'c list \<times> serve_end" where
  "ServeTLS show_err load s as certFn keyFn =
     (let cfg = (case tlsConfig s of None \<Rightarrow> default_tls_config | Some c \<Rightarrow> c);
          s = s\<lparr>tlsConfig := Some cfg\<rparr>;
          loaded = (if Certificates cfg = [] \<and> \<not> GetCertificate cfg
                    then (case load certFn keyFn of
                            Inl err \<Rightarrow> Inl err
                          | Inr cert \<Rightarrow> Inr (cfg\<lparr>Certificates := [cert]\<rparr>))
                    else Inr cfg) in
      case loaded of
        Inl err \<Rightarrow> (s, [], Served (Some (ErrText (''loading key pair: '' @ show_err err))))
      | Inr cfg \<Rightarrow>
          let s = s\<lparr>tlsConfig := Some cfg\<rparr> in
          if ready s = ClosedChannel then (s, [], CloseOfClosed)
          else
            let s = (if ready s = NilChannel then s else s\<lparr>ready := ClosedChannel\<rparr>) in
            (case accept_loop as of
               (cs, None) \<Rightarrow> (s, cs, Served None)
             | (cs, Some err) \<Rightarrow> (s, cs, Served (Some (ErrText (''accept: '' @ show_err err))))))"

text \<open>
  \<open>ListenAndServeTLS\<close>: also the address listened on and whether the listener is closed when the
  function has returned, which only a cancelled context does.  An accepted connection comes with the
  outcomes of its \<open>SetDeadline\<close> calls.
\<close>

record 'cert tls_outcome =
  srv :: "'cert tls_server"
  listened :: "string option"
  ended :: serve_end
  listener_open :: bool

definition ListenAndServeTLS ::
  "(go_error \<Rightarrow> string) \<Rightarrow> (string \<Rightarrow> unit result) \<Rightarrow> (string \<Rightarrow> string \<Rightarrow> 'cert result) \<Rightarrow> bool \<Rightarrow>
   'cert tls_server \<Rightarrow> (go_error option list \<times> reader \<times> writer) result list \<Rightarrow> string \<Rightarrow> string \<Rightarrow>
   'cert tls_outcome \<times> (reader \<times> writer) list" where
  "ListenAndServeTLS show_err listen load cancelled s as certFn keyFn =
     (let s = (if tls_addr s = [] then s\<lparr>tls_addr := ''localhost:443''\<rparr> else s) in
      case listen (tls_addr s) of
        Inl err \<Rightarrow>
          (\<lparr>srv = s, listened = None,
            ended = Served (Some (Wrapped (''binding to tcp '' @ tls_addr s) err)), listener_open = False\<rparr>, [])
      | Inr _ \<Rightarrow>
          (case ServeTLS show_err load s as certFn keyFn of
             (s', cs, e) \<Rightarrow>
               (\<lparr>srv = s\<lparr>ready := ready s',
                       tlsConfig := if tlsConfig s = None then None else tlsConfig s'\<rparr>,
                 listened = Some (tls_addr s), ended = e, listener_open = \<not> (has_ctx s \<and> cancelled)\<rparr>,
                map (\<lambda>(dl, r, w). tls_conn (maxIdle s) dl r w) cs)))"

definition error_text_id :: "go_error \<Rightarrow> string" where
  "error_text_id e = (case e of ErrText s \<Rightarrow> s | _ \<Rightarrow> ''error'')"

text \<open>
  C27: A TLS server made without a configuration and started on a good key pair serves with the version
  number of TLS 1.2 as the minimum, on P-256 only, with that key pair, reports itself ready, and runs
  the echo loop on every connection accepted before the first error of \<open>Accept\<close>, whose text the
  returned error carries.  The loop sends back a prefix of what the client sent, all of it if the
  deadlines can be set, the writes succeed, and the last data is not read together with the end.  If the key pair cannot be loaded it
  returns that error without accepting anything, but \<open>Ready\<close> then blocks for ever and, unless the
  context is cancelled, the listening socket stays open.
\<close>

theorem tls_server_start:
  assumes "listen (if a = [] then ''localhost:443'' else a) = Inr ()"
  shows "case ListenAndServeTLS show_err listen load cancelled (NewTLSServer ctx a idle None) as certFn keyFn of
    (o1, conns) \<Rightarrow>
      (case load certFn keyFn of
         Inr cert \<Rightarrow>
           fst (snd (ServeTLS show_err load (NewTLSServer ctx a idle None) as certFn keyFn)) =
             map projr (takeWhile accepted_conn as) \<and>
           tlsConfig (fst (ServeTLS show_err load (NewTLSServer ctx a idle None) as certFn keyFn)) =
             Some \<lparr>Certificates = [cert], GetCertificate = False, only_P256 = True, MinVersion = 0x0303,
               PreferServerCipherSuites = True\<rparr> \<and>
           Ready_returns (srv o1) \<and>
           conns = map (\<lambda>(dl, r, w). tls_conn idle dl r w) (map projr (takeWhile accepted_conn as)) \<and>
           (\<forall>dl r w. \<exists>k \<le> length (stream r).
              accepted (snd (tls_conn idle dl r w)) = accepted w @ take k (stream r) \<and>
              ((idle \<le> 0 \<or> dl = []) \<and> script w = [] \<longrightarrow> k = length (stream r))) \<and>
           ended o1 = Served (map_option (\<lambda>e. ErrText (''accept: '' @ show_err e)) (snd (accept_loop as)))
       | Inl e \<Rightarrow>
           conns = [] \<and> \<not> Ready_returns (srv o1) \<and> listener_open o1 = (\<not> (ctx \<and> cancelled)) \<and>
           ended o1 = Served (Some (ErrText (''loading key pair: '' @ show_err e))))"
  using assms
  by (cases "a = []"; cases "accept_loop as"; cases "snd (accept_loop as)"; cases "load certFn keyFn")
    (simp_all add: ListenAndServeTLS_def ServeTLS_def NewTLSServer_def Let_def default_tls_config_def
      VersionTLS12_def Ready_returns_def accept_loop_conns [symmetric] tls_conn_echoes)

theorem tls_server_start_witness:
  "(\<exists>o1. ListenAndServeTLS error_text_id (\<lambda>a. Inr ()) (\<lambda>c k. Inr (1 :: nat)) False
      (NewTLSServer False [] 0 None) [Inr ([], client_conn [[9]]), Inl EOF] ''c'' ''k'' =
      (o1, [echo_conn (fst (client_conn [[9]])) (snd (client_conn [[9]]))]) \<and> Ready_returns (srv o1)) \<and>
   (\<exists>o2. ListenAndServeTLS error_text_id (\<lambda>a. Inr ()) (\<lambda>c k. (Inl EOF :: nat result)) False
      (NewTLSServer False [] 0 None) [] ''c'' ''k'' = (o2, []) \<and>
      \<not> Ready_returns (srv o2) \<and> listener_open o2)"
proof (rule conjI)
  let ?l = "\<lambda>a. Inr ()" and ?as = "[Inr ([], client_conn [[9]]), Inl EOF]"
  have p: "?l (if [] = [] then ''localhost:443'' else []) = Inr ()" by simp
  obtain o1 cs where r: "ListenAndServeTLS error_text_id ?l (\<lambda>c k. Inr (1 :: nat)) False
      (NewTLSServer False [] 0 None) ?as ''c'' ''k'' = (o1, cs)" by (metis prod.exhaust)
  have "cs = [echo_conn (fst (client_conn [[9]])) (snd (client_conn [[9]]))]" "Ready_returns (srv o1)"
    using tls_server_start [where a = "[]" and listen = ?l, OF p,
        where show_err = error_text_id and load = "\<lambda>c k. Inr (1 :: nat)" and cancelled = False and ctx = False
          and idle = 0 and as = ?as and certFn = "''c''" and keyFn = "''k''"] r
    by (simp_all add: client_conn_def tls_conn_no_deadline)
  with r show "\<exists>o1. ListenAndServeTLS error_text_id ?l (\<lambda>c k. Inr (1 :: nat)) False
      (NewTLSServer False [] 0 None) ?as ''c'' ''k'' =
      (o1, [echo_conn (fst (client_conn [[9]])) (snd (client_conn [[9]]))]) \<and> Ready_returns (srv o1)" by blast
  obtain o2 cs where r: "ListenAndServeTLS error_text_id ?l (\<lambda>c k. (Inl EOF :: nat result)) False
      (NewTLSServer False [] 0 None) [] ''c'' ''k'' = (o2, cs)" by (metis prod.exhaust)
  then show "\<exists>o2. ListenAndServeTLS error_text_id ?l (\<lambda>c k. (Inl EOF :: nat result)) False
      (NewTLSServer False [] 0 None) [] ''c'' ''k'' = (o2, []) \<and>
      \<not> Ready_returns (srv o2) \<and> listener_open o2"
    using tls_server_start [where a = "[]" and listen = ?l, OF p,
        where show_err = error_text_id and load = "\<lambda>c k. (Inl EOF :: nat result)" and cancelled = False
          and ctx = False and idle = 0 and as = "[]" and certFn = "''c''" and keyFn = "''k''"]
    by simp
qed

end
