(* ===== verification/Auth.thy ===== *)
theory Auth
  imports GoStrings
begin

text \<open>
  Chapter7/auth.go: \<open>Allowed\<close> reads the credentials of the peer of a Unix domain socket and asks
  whether its user belongs to one of the given groups.  The results of the successive
  \<open>GetsockoptUcred\<close> calls are a list; \<open>user.LookupId\<close> and \<open>GroupIds\<close> are parameters.
\<close>

datatype cred_result = EINTR | CredErr go_error | Cred u32

text \<open>The retry loop; \<open>None\<close> when every call so far was interrupted.\<close>

fun cred_loop :: "cred_result list \<Rightarrow> u32 result option" where
  "cred_loop [] = None"
| "cred_loop (EINTR # cs) = cred_loop cs"
| "cred_loop (CredErr err # cs) = Some (Inl err)"
| "cred_loop (Cred uid # cs) = Some (Inr uid)"

text \<open>Go's conversion \<open>string(n)\<close> of an integer: the UTF-8 encoding of the code point \<open>n\<close>.\<close>

definition utf8_of :: "nat \<Rightarrow> nat list" where
  "utf8_of n =
     (if n < 0x80 then [n]
      else if n < 0x800 then [0xC0 + n div 0x40, 0x80 + n mod 0x40]
      else if n > 0x10FFFF \<or> (0xD800 \<le> n \<and> n < 0xE000) then [0xEF, 0xBF, 0xBD]
      else if n < 0x10000 then [0xE0 + n div 0x1000, 0x80 + n div 0x40 mod 0x40, 0x80 + n mod 0x40]
      else [0xF0 + n div 0x40000, 0x80 + n div 0x1000 mod 0x40, 0x80 + n div 0x40 mod 0x40, 0x80 + n mod 0x40])"

definition string_of_uint :: "u32 \<Rightarrow> string" where
  "string_of_uint n = map char_of (utf8_of (unat n))"

text \<open>\<open>conn\<close> and \<open>groups\<close> are \<open>None\<close> when nil.  \<open>None\<close> as a result: not returned yet.\<close>

definition Allowed ::
  "(string \<Rightarrow> 'u result) \<Rightarrow> ('u \<Rightarrow> string list result) \<Rightarrow> cred_result list option \<Rightarrow>
   string list option \<Rightarrow> bool option" where
  "Allowed lookup group_ids conn groups =
     (case (conn, groups) of
        (Some creds, Some gs) \<Rightarrow>
          if gs = [] then Some False
          else (case cred_loop creds of
            None \<Rightarrow> None
          | Some (Inl err) \<Rightarrow> Some False
          | Some (Inr uid) \<Rightarrow>
              (case lookup (string_of_uint uid) of
                 Inl err \<Rightarrow> Some False
               | Inr u \<Rightarrow>
                   (case group_ids u of
                      Inl err \<Rightarrow> Some False
                    | Inr gids \<Rightarrow> Some (\<exists>gid \<in> set gids. gid \<in> set gs))))
      | _ \<Rightarrow> Some False)"

lemma utf8_of_high: "128 \<le> n \<Longrightarrow> utf8_of n \<noteq> [] \<and> 194 \<le> hd (utf8_of n) \<and> hd (utf8_of n) \<le> 244"
  by (auto simp: utf8_of_def)

lemma show_nat_single: "show_nat n = [c] \<Longrightarrow> n < 10 \<and> c = digit_char n"
  using show_nat_hd [of "n div 10"]
  by (subst (asm) show_nat.simps) (auto split: if_splits simp: Cons_eq_append_conv)

lemma string_of_uint_decimal:
  assumes "string_of_uint uid = show_nat n"
  shows "n < 10 \<and> unat uid = 48 + n"
proof (cases "unat uid < 128")
  case True
  then have "show_nat n = [char_of (unat uid)]" using assms by (simp add: string_of_uint_def utf8_of_def)
  then have n: "n < 10" "char_of (unat uid) = digit_char n" using show_nat_single by auto
  then have "(of_char (char_of (unat uid)) :: nat) = 48 + n" by simp
  then show ?thesis using True n(1) by simp
next
  case False
  then have u: "utf8_of (unat uid) \<noteq> []" "194 \<le> hd (utf8_of (unat uid))" "hd (utf8_of (unat uid)) \<le> 244"
    using utf8_of_high [of "unat uid"] by auto
  obtain d where "d < 10" "hd (show_nat n) = digit_char d" using show_nat_hd by blast
  moreover have "hd (show_nat n) = char_of (hd (utf8_of (unat uid)))"
    using assms u(1) by (metis hd_map string_of_uint_def)
  ultimately have "(of_char (char_of (hd (utf8_of (unat uid)))) :: nat) = 48 + d" by simp
  then show ?thesis using u \<open>d < 10\<close> by simp
qed

text \<open>
  \<open>Allowed\<close> never looks the peer's user up: \<open>string(ucred.Uid)\<close> is the character with that code,
  not the decimal number that \<open>user.LookupId\<close> expects.  With a \<open>LookupId\<close> that finds users by their
  decimal id, access is granted only to the peers with id 48 to 57, and then because the user with
  id 0 to 9 is a member; a member with any other id is refused.
\<close>

theorem allowed_looks_up_wrong_user:
  assumes "\<And>s u. lookup s = Inr u \<Longrightarrow> s = show_nat (uid_of u)"
    and "cred_loop creds = Some (Inr uid)"
    and "Allowed lookup group_ids (Some creds) (Some groups) = Some True"
  shows "\<exists>u gids. unat uid = 48 + uid_of u \<and> uid_of u < 10 \<and> lookup (show_nat (uid_of u)) = Inr u \<and>
    group_ids u = Inr gids \<and> set gids \<inter> set groups \<noteq> {}"
proof -
  obtain u gids where u: "lookup (string_of_uint uid) = Inr u" "group_ids u = Inr gids" "set gids \<inter> set groups \<noteq> {}"
    using assms(2,3) by (auto simp: Allowed_def split: if_splits sum.splits)
  then have "string_of_uint uid = show_nat (uid_of u)" using assms(1) by blast
  then show ?thesis using u string_of_uint_decimal by metis
qed

definition unix_user :: "string \<Rightarrow> nat result" where
  "unix_user s = (if s = ''0'' then Inr 0 else if s = ''1000'' then Inr 1000 else Inl (ErrText ''unknown user''))"

theorem allowed_looks_up_wrong_user_witness:
  "Allowed unix_user (\<lambda>u. Inr [''wheel'']) (Some [EINTR, Cred 1000]) (Some [''wheel'']) = Some False \<and>
   Allowed unix_user (\<lambda>u. if u = 0 then Inr [''wheel''] else Inr []) (Some [Cred 48]) (Some [''wheel'']) = Some True \<and>
   (\<exists>u. unat (48 :: u32) = 48 + id u \<and> unix_user (show_nat (id u)) = Inr u)"
proof (intro conjI)
  show "Allowed unix_user (\<lambda>u. Inr [''wheel'']) (Some [EINTR, Cred 1000]) (Some [''wheel'']) = Some False"
    by code_simp
  have r: "Allowed unix_user (\<lambda>u. if u = 0 then Inr [''wheel''] else Inr []) (Some [Cred 48]) (Some [''wheel'']) = Some True"
    by code_simp
  then show "Allowed unix_user (\<lambda>u. if u = 0 then Inr [''wheel''] else Inr []) (Some [Cred 48]) (Some [''wheel'']) = Some True" .
  have n: "show_nat 0 = ''0''" "show_nat 1000 = ''1000''"
    by (simp add: show_nat.simps digit_char_def, code_simp)+
  have id: "s = show_nat (id u)" if "unix_user s = Inr u" for s u
    using that n by (auto simp: unix_user_def split: if_splits)
  have c: "cred_loop [Cred 48] = Some (Inr 48)" by simp
  from allowed_looks_up_wrong_user [where uid_of = id, OF id c r] show "\<exists>u. unat (48 :: u32) = 48 + id u \<and> unix_user (show_nat (id u)) = Inr u"
    by blast
qed

end
