(* ===== verification/Instrument.thy ===== *)
theory Instrument
  imports GoHTTP
begin

text \<open>
  Chapter13/instrument/server.go: the instrumented handler and the connection-state callback, with
  the four variables of instrument/metrics/metrics.go as a record.  Counters, gauges and histograms
  belong to go-kit and Prometheus: their operations are the fields of a \<open>kit\<close>, and \<open>kit_laws\<close> says
  what their documentation promises of the numbers they hold.  \<open>conn_step\<close> is the life of the server's
  connections as net/http documents it: the callback is called at every change of state, and a
  hijacked or closed connection does not change any more.  Last comes \<open>main\<close> with its load generator.
\<close>

record ('c, 'g, 'h) kit =
  counter_Add :: "nat \<Rightarrow> 'c \<Rightarrow> 'c"
  gauge_Add :: "int \<Rightarrow> 'g \<Rightarrow> 'g"
  Observe :: "duration \<Rightarrow> 'h \<Rightarrow> 'h"

definition kit_laws ::
  "('c, 'g, 'h) kit \<Rightarrow> ('c \<Rightarrow> nat) \<Rightarrow> ('g \<Rightarrow> int) \<Rightarrow> ('h \<Rightarrow> nat) \<Rightarrow> bool" where
  "kit_laws K count gauge samples \<longleftrightarrow>
     (\<forall>n c. count (counter_Add K n c) = count c + n) \<and>
     (\<forall>d g. gauge (gauge_Add K d g) = gauge g + d) \<and>
     (\<forall>x h. samples (Observe K x h) = samples h + 1)"

record ('c, 'g, 'h) metrics =
  Requests :: 'c
  WriteErrors :: 'c
  OpenConnections :: 'g
  RequestDuration :: 'h

text \<open>\<open>dur\<close> is the time the request took, observed by the deferred function.\<close>

definition helloHandler ::
  "('c, 'g, 'h) kit \<Rightarrow> duration \<Rightarrow> response \<times> ('c, 'g, 'h) metrics \<Rightarrow> response \<times> ('c, 'g, 'h) metrics" where
  "helloHandler K dur s =
     (case s of (w, m) \<Rightarrow>
        let m = m\<lparr>Requests := counter_Add K 1 (Requests m)\<rparr>;
            (w, _, err) = Write (to_bytes ''Hello!'') w;
            m = (if err \<noteq> None then m\<lparr>WriteErrors := counter_Add K 1 (WriteErrors m)\<rparr> else m) in
        (w, m\<lparr>RequestDuration := Observe K dur (RequestDuration m)\<rparr>))"

datatype conn_state = StateNew | StateActive | StateIdle | StateHijacked | StateClosed

definition connStateMetrics :: "('c, 'g, 'h) kit \<Rightarrow> conn_state \<Rightarrow> ('c, 'g, 'h) metrics \<Rightarrow> ('c, 'g, 'h) metrics" where
  "connStateMetrics K state m =
     (case state of
        StateNew \<Rightarrow> m\<lparr>OpenConnections := gauge_Add K 1 (OpenConnections m)\<rparr>
      | StateClosed \<Rightarrow> m\<lparr>OpenConnections := gauge_Add K (- 1) (OpenConnections m)\<rparr>
      | _ \<Rightarrow> m)"

subsection \<open>The connections of a server\<close>

fun conn_change :: "conn_state \<Rightarrow> conn_state \<Rightarrow> bool" where
  "conn_change StateNew s \<longleftrightarrow> s = StateActive \<or> s = StateClosed"
| "conn_change StateActive s \<longleftrightarrow> s = StateIdle \<or> s = StateHijacked \<or> s = StateClosed"
| "conn_change StateIdle s \<longleftrightarrow> s = StateActive \<or> s = StateClosed"
| "conn_change StateHijacked s \<longleftrightarrow> False"
| "conn_change StateClosed s \<longleftrightarrow> False"

type_synonym conns = "nat \<Rightarrow> conn_state option"

inductive conn_step ::
  "('c, 'g, 'h) kit \<Rightarrow> ('c, 'g, 'h) metrics \<times> conns \<Rightarrow> ('c, 'g, 'h) metrics \<times> conns \<Rightarrow> bool" for K where
  accept: "C c = None \<Longrightarrow> conn_step K (m, C) (connStateMetrics K StateNew m, C(c \<mapsto> StateNew))"
| change: "C c = Some s \<Longrightarrow> conn_change s s' \<Longrightarrow>
    conn_step K (m, C) (connStateMetrics K s' m, C(c \<mapsto> s'))"
| request: "conn_step K (m, C) (snd (helloHandler K dur (w, m)), C)"

inductive_simps conn_step_simps: "conn_step K (m, C) (m', C')"

inductive conn_reach ::
  "('c, 'g, 'h) kit \<Rightarrow> ('c, 'g, 'h) metrics \<Rightarrow> ('c, 'g, 'h) metrics \<times> conns \<Rightarrow> bool" for K m0 where
  start: "conn_reach K m0 (m0, \<lambda>_. None)"
| step: "conn_reach K m0 s \<Longrightarrow> conn_step K s s' \<Longrightarrow> conn_reach K m0 s'"

definition in_state :: "conn_state set \<Rightarrow> conns \<Rightarrow> nat set" where
  "in_state S C = {c. \<exists>s\<in>S. C c = Some s}"

definition open_states :: "conn_state set" where
  "open_states = {StateNew, StateActive, StateIdle, StateHijacked}"

definition gauge_inv ::
  "('c \<Rightarrow> nat) \<Rightarrow> ('g \<Rightarrow> int) \<Rightarrow> ('h \<Rightarrow> nat) \<Rightarrow> ('c, 'g, 'h) metrics \<times> conns \<Rightarrow> bool" where
  "gauge_inv count gauge samples s \<longleftrightarrow> finite (in_state open_states (snd s)) \<and>
     gauge (OpenConnections (fst s)) = int (card (in_state open_states (snd s))) \<and>
     count (WriteErrors (fst s)) \<le> count (Requests (fst s)) \<and>
     samples (RequestDuration (fst s)) = count (Requests (fst s))"

lemma in_state_upd:
  "in_state S (C(c \<mapsto> s)) = (if s \<in> S then insert c (in_state S C) else in_state S C - {c})"
  by (auto simp: in_state_def)

lemma hello_fields [simp]:
  "OpenConnections (snd (helloHandler K dur (w, m))) = OpenConnections m"
  "Requests (snd (helloHandler K dur (w, m))) = counter_Add K 1 (Requests m)"
  "WriteErrors (snd (helloHandler K dur (w, m))) =
     (if snd (snd (Write (to_bytes ''Hello!'') w)) = None then WriteErrors m
      else counter_Add K 1 (WriteErrors m))"
  "RequestDuration (snd (helloHandler K dur (w, m))) = Observe K dur (RequestDuration m)"
  by (simp_all add: helloHandler_def Let_def prod.case_eq_if)

lemma connState_fields [simp]:
  "Requests (connStateMetrics K s m) = Requests m" "WriteErrors (connStateMetrics K s m) = WriteErrors m"
  "RequestDuration (connStateMetrics K s m) = RequestDuration m"
  "OpenConnections (connStateMetrics K s m) =
     (case s of StateNew \<Rightarrow> gauge_Add K 1 (OpenConnections m)
      | StateClosed \<Rightarrow> gauge_Add K (- 1) (OpenConnections m) | _ \<Rightarrow> OpenConnections m)"
  by (cases s; simp add: connStateMetrics_def)+

lemma gauge_step:
  assumes "conn_step K s s'" "gauge_inv count gauge samples s" "kit_laws K count gauge samples"
  shows "gauge_inv count gauge samples s'"
  using assms(1,2)
proof (induction rule: conn_step.induct)
  case (accept C c m)
  then have "c \<notin> in_state open_states C" by (simp add: in_state_def)
  with accept show ?case using assms(3) by (simp add: gauge_inv_def in_state_upd open_states_def kit_laws_def)
next
  case (change C c s s' m)
  then have c: "c \<in> in_state open_states C" by (cases s) (auto simp: in_state_def open_states_def)
  have fin: "finite (in_state open_states C)" using change by (simp add: gauge_inv_def)
  have "0 < card (in_state open_states C)" using c fin card_gt_0_iff by blast
  then have "int (card (in_state open_states C - {c})) = int (card (in_state open_states C)) - 1"
    using card_Diff_singleton [OF c] by simp
  moreover have "insert c (in_state open_states C) = in_state open_states C" using c by auto
  moreover have "s' \<noteq> StateNew" using change(2) by (cases s) auto
  ultimately show ?case
    using change(3) assms(3)
    by (cases s') (simp_all add: gauge_inv_def in_state_upd open_states_def kit_laws_def)
next
  case (request m C dur w)
  then show ?case using assms(3) by (simp add: gauge_inv_def kit_laws_def)
qed

text \<open>
  C24: Whatever the clients do, the gauge of open connections is the number of connections that were
  accepted and not closed, so it is never negative; a hijacked connection counts for ever, since its
  closing is never reported.  One duration is observed per request and there are at most as many
  write errors.
\<close>

theorem gauge_counts_connections:
  assumes "kit_laws K count gauge samples" and "conn_reach K m0 (m, C)"
    and "gauge (OpenConnections m0) = 0" "samples (RequestDuration m0) = count (Requests m0)"
    and "count (WriteErrors m0) \<le> count (Requests m0)"
  shows "gauge (OpenConnections m) =
      int (card (in_state {StateNew, StateActive, StateIdle} C)) + int (card (in_state {StateHijacked} C)) \<and>
    count (WriteErrors m) \<le> count (Requests m) \<and> samples (RequestDuration m) = count (Requests m)"
proof -
  have inv: "gauge_inv count gauge samples (m, C)"
    using assms(2)
  proof (induction "(m, C)" arbitrary: m C rule: conn_reach.induct)
    case start
    then show ?case using assms(3-5) by (simp add: gauge_inv_def in_state_def)
  next
    case (step s)
    then show ?case using gauge_step [OF step(3) _ assms(1)] by (metis prod.exhaust)
  qed
  have "in_state open_states C = in_state {StateNew, StateActive, StateIdle} C \<union> in_state {StateHijacked} C"
    "in_state {StateNew, StateActive, StateIdle} C \<inter> in_state {StateHijacked} C = {}"
    by (auto simp: in_state_def open_states_def)
  then have "card (in_state open_states C) =
      card (in_state {StateNew, StateActive, StateIdle} C) + card (in_state {StateHijacked} C)"
    using inv by (simp add: gauge_inv_def card_Un_disjoint)
  with inv show ?thesis by (simp add: gauge_inv_def)
qed

text \<open>Counters, gauges and histograms as the numbers themselves.\<close>

definition plain_kit :: "(nat, int, duration list) kit" where
  "plain_kit = \<lparr>counter_Add = (\<lambda>n c. c + n), gauge_Add = (\<lambda>d g. g + d), Observe = (\<lambda>x h. h @ [x])\<rparr>"

definition no_metrics :: "(nat, int, duration list) metrics" where
  "no_metrics = \<lparr>Requests = 0, WriteErrors = 0, OpenConnections = 0, RequestDuration = []\<rparr>"

lemma plain_kit_laws: "kit_laws plain_kit id id length"
  by (simp add: kit_laws_def plain_kit_def)

theorem gauge_counts_connections_witness:
  "\<exists>m. conn_reach plain_kit no_metrics (m, (\<lambda>_. None)(7 \<mapsto> StateHijacked)) \<and> OpenConnections m = 1"
proof -
  let ?C = "(\<lambda>_. None) :: conns"
  let ?m1 = "connStateMetrics plain_kit StateNew no_metrics"
  let ?m2 = "connStateMetrics plain_kit StateActive ?m1"
  let ?m = "connStateMetrics plain_kit StateHijacked ?m2"
  have "conn_reach plain_kit no_metrics (?m1, ?C(7 \<mapsto> StateNew))"
    by (rule conn_reach.step [OF conn_reach.start conn_step.accept]) simp
  then have "conn_reach plain_kit no_metrics (?m2, (?C(7 \<mapsto> StateNew))(7 \<mapsto> StateActive))"
    by (rule conn_reach.step) (rule conn_step.change [of _ _ StateNew], simp_all)
  then have "conn_reach plain_kit no_metrics (?m, ((?C(7 \<mapsto> StateNew))(7 \<mapsto> StateActive))(7 \<mapsto> StateHijacked))"
    by (rule conn_reach.step) (rule conn_step.change [of _ _ StateActive], simp_all)
  then have r: "conn_reach plain_kit no_metrics (?m, ?C(7 \<mapsto> StateHijacked))" by simp
  have "in_state {StateHijacked} (?C(7 \<mapsto> StateHijacked)) = {7}"
    "in_state {StateNew, StateActive, StateIdle} (?C(7 \<mapsto> StateHijacked)) = {}"
    by (auto simp: in_state_def)
  then have "OpenConnections ?m = 1"
    using gauge_counts_connections [OF plain_kit_laws r] by (simp add: no_metrics_def)
  with r show ?thesis by blast
qed

subsection \<open>The program\<close>

text \<open>
  \<open>main\<close> starts the two servers, lets 500 clients make 100 requests each, and prints those lines of
  the metrics page that start with the configured prefix.  The clients run concurrently: what happens
  is a schedule, a list that names for each request the client and how it went (a failed request ends
  the program).  \<open>listen\<close> is \<open>net.Listen\<close>, \<open>page\<close> the outcome of fetching the metrics page.
\<close>

definition newHTTPServer :: "(string \<Rightarrow> unit result) \<Rightarrow> string \<Rightarrow> go_error option" where
  "newHTTPServer listen addr = (case listen addr of Inl err \<Rightarrow> Some err | Inr _ \<Rightarrow> None)"

definition clients :: nat where
  "clients = 500"

definition gets :: nat where
  "gets = 100"

type_synonym load = "(nat \<times> (response \<times> duration) result) list"

fun run_load ::
  "('c, 'g, 'h) kit \<Rightarrow> load \<Rightarrow> ('c, 'g, 'h) metrics \<Rightarrow> ('c, 'g, 'h) metrics \<times> go_error option" where
  "run_load K [] m = (m, None)"
| "run_load K ((c, Inl err) # ls) m = (m, Some err)"
| "run_load K ((c, Inr (w, dur)) # ls) m = run_load K ls (snd (helloHandler K dur (w, m)))"

definition all_requests :: "load \<Rightarrow> bool" where
  "all_requests ls \<longleftrightarrow> (\<forall>c. count_list (map fst ls) c = (if c < clients then gets else 0))"

definition metric_lines :: "string \<Rightarrow> string \<Rightarrow> string \<Rightarrow> string list" where
  "metric_lines namespace subsystem b =
     filter (\<lambda>line. has_prefix line (namespace @ ''_'' @ subsystem)) (split_on (CHR 0x0A) b)"

definition instrument_main ::
  "('c, 'g, 'h) kit \<Rightarrow> (string \<Rightarrow> unit result) \<Rightarrow> (('c, 'g, 'h) metrics \<Rightarrow> string result) \<Rightarrow>
   string \<Rightarrow> string \<Rightarrow> string \<Rightarrow> string \<Rightarrow> load \<Rightarrow> ('c, 'g, 'h) metrics \<Rightarrow>
   ('c, 'g, 'h) metrics \<times> string list \<times> go_error option" where
  "instrument_main K listen page metricsAddr webAddr namespace subsystem ls m =
     (case newHTTPServer listen metricsAddr of
        Some err \<Rightarrow> (m, [], Some err)
      | None \<Rightarrow>
          (case newHTTPServer listen webAddr of
             Some err \<Rightarrow> (m, [], Some err)
           | None \<Rightarrow>
               (case run_load K ls m of
                  (m, Some err) \<Rightarrow> (m, [], Some err)
                | (m, None) \<Rightarrow>
                    (case page m of
                       Inl err \<Rightarrow> (m, [], Some err)
                     | Inr b \<Rightarrow> (m, metric_lines namespace subsystem b, None)))))"

lemma length_all_requests:
  assumes "all_requests ls"
  shows "length ls = clients * gets"
proof -
  have "set (map fst ls) = {..<clients}"
  proof (rule set_eqI)
    fix c
    have "c \<in> set (map fst ls) \<longleftrightarrow> count_list (map fst ls) c \<noteq> 0" by (simp add: count_list_0_iff)
    then show "c \<in> set (map fst ls) \<longleftrightarrow> c \<in> {..<clients}"
      using assms by (simp add: all_requests_def gets_def split: if_splits)
  qed
  then have "length (map fst ls) = (\<Sum>c<clients. count_list (map fst ls) c)"
    by (metis sum_count_set finite_lessThan subset_refl)
  also have "\<dots> = (\<Sum>c<clients. gets)" using assms by (simp add: all_requests_def)
  finally show ?thesis by simp
qed

lemma run_load_counts:
  assumes "kit_laws K count gauge samples" "run_load K ls m = (m', None)"
  shows "count (Requests m') = count (Requests m) + length ls \<and>
    samples (RequestDuration m') = samples (RequestDuration m) + length ls"
  using assms
proof (induction K ls m rule: run_load.induct)
  case (3 K c w dur ls m)
  then show ?case by (simp add: kit_laws_def)
qed simp_all

text \<open>
  However the 500 clients interleave, when the program ends without an error the request counter has
  grown by 50000 and as many durations were observed, and what it prints are lines of the page it
  fetched that start with the prefix.
\<close>

theorem load_is_counted:
  assumes "kit_laws K count gauge samples" and "all_requests ls"
    and "instrument_main K listen page metricsAddr webAddr namespace subsystem ls m = (m', out, None)"
  shows "count (Requests m') = count (Requests m) + 50000 \<and>
    samples (RequestDuration m') = samples (RequestDuration m) + 50000 \<and>
    (\<exists>b. page m' = Inr b \<and> (\<forall>l\<in>set out. l \<in> set (split_on (CHR 0x0A) b) \<and>
       prefix (namespace @ ''_'' @ subsystem) l))"
proof -
  have r: "run_load K ls m = (m', None)" and p: "\<exists>b. page m' = Inr b \<and> out = metric_lines namespace subsystem b"
    using assms(3) by (auto simp: instrument_main_def split: option.splits prod.splits sum.splits)
  have "length ls = 50000" using length_all_requests [OF assms(2)] by (simp add: clients_def gets_def)
  with run_load_counts [OF assms(1) r] p show ?thesis by (auto simp: metric_lines_def has_prefix_iff)
qed

end
