(* ===== verification/Metrics.thy ===== *)
theory Metrics
  imports Instrument
begin

text \<open>
  The variables of chapter13/instrument/metrics/metrics.go as they are registered, and what follows for
  the report that \<open>main\<close> prints.  The flags of the package are read when its variables are
  initialised, which Go does before \<open>main\<close> parses the command line.  The buckets of the histogram are
  counted in tenths of a microsecond, the first of them.
\<close>

record metric_flags =
  Namespace :: string
  Subsystem :: string

definition default_flags :: metric_flags where
  "default_flags = \<lparr>Namespace = ''web'', Subsystem = ''server1''\<rparr>"

record metric_opts =
  opt_Namespace :: string
  opt_Subsystem :: string
  opt_Name :: string
  opt_Help :: string
  opt_Buckets :: "nat list"

definition request_opts :: "metric_flags \<Rightarrow> metric_opts" where
  "request_opts f = \<lparr>opt_Namespace = Namespace f, opt_Subsystem = Subsystem f,
     opt_Name = ''request_count'', opt_Help = ''Total requests'', opt_Buckets = []\<rparr>"

definition write_error_opts :: "metric_flags \<Rightarrow> metric_opts" where
  "write_error_opts f = \<lparr>opt_Namespace = Namespace f, opt_Subsystem = Subsystem f,
     opt_Name = ''write_errors_count'', opt_Help = ''Total write errors'', opt_Buckets = []\<rparr>"

definition open_connection_opts :: "metric_flags \<Rightarrow> metric_opts" where
  "open_connection_opts f = \<lparr>opt_Namespace = Namespace f, opt_Subsystem = Subsystem f,
     opt_Name = ''open_connections'', opt_Help = ''Current open connections'', opt_Buckets = []\<rparr>"

definition duration_opts :: "metric_flags \<Rightarrow> metric_opts" where
  "duration_opts f = \<lparr>opt_Namespace = Namespace f, opt_Subsystem = Subsystem f,
     opt_Name = ''request_duration_histogram_seconds'', opt_Help = ''Total duration of all requests'',
     opt_Buckets = [1, 2, 3, 4, 5, 10, 25, 50, 75, 100, 1000, 10000, 100000]\<rparr>"

text \<open>What the package registers when it is initialised.\<close>

definition registered :: "metric_opts list" where
  "registered = map (\<lambda>opts. opts default_flags) [request_opts, write_error_opts, open_connection_opts, duration_opts]"

text \<open>
  The name under which Prometheus exports a metric (\<open>BuildFQName\<close> with all three parts), and the form
  it requires of it.
\<close>

definition exported_name :: "metric_opts \<Rightarrow> string" where
  "exported_name m = opt_Namespace m @ ''_'' @ opt_Subsystem m @ ''_'' @ opt_Name m"

definition name_start :: "char \<Rightarrow> bool" where
  "name_start c \<longleftrightarrow> c = CHR ''_'' \<or> c = CHR '':'' \<or> c \<in> set ''abcdefghijklmnopqrstuvwxyzABCDEFGHIJKLMNOPQRSTUVWXYZ''"

definition valid_metric_name :: "string \<Rightarrow> bool" where
  "valid_metric_name s \<longleftrightarrow>
     s \<noteq> [] \<and> name_start (hd s) \<and> (\<forall>c\<in>set s. name_start c \<or> c \<in> set ''0123456789'')"

lemma registered_names:
  "map exported_name registered =
     [''web_server1_request_count'', ''web_server1_write_errors_count'', ''web_server1_open_connections'',
      ''web_server1_request_duration_histogram_seconds'']"
  by (simp add: registered_def default_flags_def request_opts_def write_error_opts_def
      open_connection_opts_def duration_opts_def exported_name_def)

text \<open>
  A page of metrics: each line is empty, a comment, or the sample of a series, which starts with the
  exported name of a metric; besides the package's metrics there are those in \<open>others\<close> that the
  Prometheus client collects on its own.
\<close>

definition metrics_page :: "string list \<Rightarrow> string \<Rightarrow> bool" where
  "metrics_page others b \<longleftrightarrow>
     (\<forall>l\<in>set (split_on (CHR 0x0A) b).
        l = [] \<or> hd l = CHR ''#'' \<or> (\<exists>n\<in>set (map exported_name registered @ others). prefix n l))"

text \<open>The report of a program started with the flags \<open>f\<close>.\<close>

definition report :: "metric_flags \<Rightarrow> string \<Rightarrow> string list" where
  "report f b = metric_lines (Namespace f) (Subsystem f) b"

text \<open>
  C40: Registration cannot fail: the exported names are valid and different from each other and the
  histogram's buckets increase.  The flags for namespace and subsystem change only the report, not
  the metrics: it consists of the lines of the page that start with namespace, underscore and
  subsystem.  Without flags these are all the samples of the package's metrics.  With flags, the
  samples of a metric are printed if its name starts that way (with \<open>web_server1\<close> and \<open>request\<close> those
  of two metrics still are), and not one of them if neither of the two texts is a beginning of the
  other; if that is so for all four metrics, in particular if the namespace is no beginning of
  \<open>web\<close> nor \<open>web\<close> of it, nothing is printed but lines of the client's own metrics.  (A namespace that
  starts with \<open>#\<close>, as the comments of a page do, is left out.)
\<close>

theorem flags_hide_metrics:
  assumes "metrics_page others b" and "start = Namespace f @ ''_'' @ Subsystem f" and "hd start \<noteq> CHR ''#''"
  shows "distinct (map exported_name registered) \<and> list_all valid_metric_name (map exported_name registered) \<and>
    sorted_wrt (<) (opt_Buckets (duration_opts default_flags)) \<and>
    report f b = filter (prefix start) (split_on (CHR 0x0A) b) \<and>
    (\<forall>l\<in>set (split_on (CHR 0x0A) b). \<forall>m\<in>set registered. prefix (exported_name m) l \<longrightarrow>
       l \<in> set (report default_flags b) \<and>
       (prefix start (exported_name m) \<longrightarrow> l \<in> set (report f b)) \<and>
       (\<not> prefix start (exported_name m) \<and> \<not> prefix (exported_name m) start \<longrightarrow> l \<notin> set (report f b))) \<and>
    ((\<forall>m\<in>set registered. \<not> prefix start (exported_name m) \<and> \<not> prefix (exported_name m) start) \<longrightarrow>
       (\<forall>l\<in>set (report f b). \<exists>n\<in>set others. prefix n l)) \<and>
    (\<not> prefix (Namespace f) ''web'' \<and> \<not> prefix ''web'' (Namespace f) \<longrightarrow>
       (\<forall>m\<in>set registered. \<not> prefix start (exported_name m) \<and> \<not> prefix (exported_name m) start))"
proof (intro conjI ballI impI)
  show "distinct (map exported_name registered)" unfolding registered_names by code_simp
  show "list_all valid_metric_name (map exported_name registered)" unfolding registered_names by code_simp
  show "sorted_wrt (<) (opt_Buckets (duration_opts default_flags))" by (simp add: duration_opts_def)
  have lines: "report g b = filter (prefix (Namespace g @ ''_'' @ Subsystem g)) (split_on (CHR 0x0A) b)" for g
    by (simp add: report_def metric_lines_def has_prefix_iff)
  then show rep: "report f b = filter (prefix start) (split_on (CHR 0x0A) b)" by (simp add: assms(2))
  have web: "prefix ''web_server1'' (exported_name m)" if "m \<in> set registered" for m
  proof -
    have "exported_name m \<in> set (map exported_name registered)" using that by simp
    then show ?thesis unfolding registered_names by auto
  qed
  have cases: "prefix p q \<or> prefix q p" if "prefix p l" "prefix q l" for p q l :: string
    using prefix_same_cases [OF that] .
  fix l m
  assume m: "m \<in> set registered"
  {
    assume l: "l \<in> set (split_on (CHR 0x0A) b)" "prefix (exported_name m) l"
    with web [OF m] have "prefix ''web_server1'' l" using prefix_order.trans by blast
    with l(1) show "l \<in> set (report default_flags b)" by (simp add: lines default_flags_def)
    show "l \<in> set (report f b)" if "prefix start (exported_name m)"
      using l that prefix_order.trans [OF that l(2)] by (simp add: rep)
    show "l \<notin> set (report f b)" if "\<not> prefix start (exported_name m) \<and> \<not> prefix (exported_name m) start"
      using that cases [OF l(2), of start] by (auto simp: rep)
  }
  assume "\<not> prefix (Namespace f) ''web'' \<and> \<not> prefix ''web'' (Namespace f)"
  then have unrelated: "\<not> prefix ''web'' x \<or> \<not> prefix (Namespace f) x" for x using cases by blast
  have n: "prefix (Namespace f) start" "prefix ''web'' (exported_name m)"
    using web [OF m] by (auto simp: assms(2) prefix_def)
  show "\<not> prefix start (exported_name m)" "\<not> prefix (exported_name m) start"
    using n unrelated prefix_order.trans by blast+
next
  fix l
  assume un: "\<forall>m\<in>set registered. \<not> prefix start (exported_name m) \<and> \<not> prefix (exported_name m) start"
    and "l \<in> set (report f b)"
  then have l: "l \<in> set (split_on (CHR 0x0A) b)" "prefix start l"
    by (auto simp: report_def metric_lines_def has_prefix_iff assms(2))
  then have "l \<noteq> []" "hd l \<noteq> CHR ''#''" using assms(2,3) by (auto simp: prefix_def hd_append split: if_splits)
  then obtain n where n: "n \<in> set (map exported_name registered @ others)" "prefix n l"
    using assms(1) l(1) unfolding metrics_page_def by blast
  then have "n \<notin> set (map exported_name registered)" using un prefix_same_cases [OF n(2) l(2)] by auto
  then show "\<exists>n\<in>set others. prefix n l" using n by auto
qed

theorem flags_hide_metrics_witness:
  "report \<lparr>Namespace = ''app'', Subsystem = ''server1''\<rparr> ''web_server1_request_count 50000'' = [] \<and>
   report \<lparr>Namespace = ''web_server1'', Subsystem = ''request''\<rparr> ''web_server1_request_count 50000'' =
     [''web_server1_request_count 50000''] \<and>
   report default_flags ''web_server1_request_count 50000'' = [''web_server1_request_count 50000'']"
proof -
  let ?b = "''web_server1_request_count 50000''"
  have s: "split_on (CHR 0x0A) ?b = [?b]" by code_simp
  then have page: "metrics_page [] ?b" unfolding metrics_page_def registered_names by auto
  note th = flags_hide_metrics [OF page refl]
  have "report \<lparr>Namespace = ''app'', Subsystem = ''server1''\<rparr> ?b = []"
    using th [of "\<lparr>Namespace = ''app'', Subsystem = ''server1''\<rparr>"] by (simp add: s)
  moreover have "report \<lparr>Namespace = ''web_server1'', Subsystem = ''request''\<rparr> ?b = [?b]"
    using th [of "\<lparr>Namespace = ''web_server1'', Subsystem = ''request''\<rparr>"] by (simp add: s)
  moreover have "report default_flags ?b = [?b]"
    using th [of default_flags] by (simp add: s default_flags_def)
  ultimately show ?thesis by simp
qed

end
