(* ===== verification/Levels.thy ===== *)
theory Levels
  imports GoHTTP
begin

text \<open>
  Chapter13/dynamic.go: a logger whose level follows the presence of a file.  The goroutine that
  reads the watcher's channels is \<open>watch\<close> over the list of what it receives.  zap belongs to a
  library: what the goroutine calls of it are the fields of a \<open>zap\<close>, and \<open>zap_laws\<close> says that a level
  that was set is the level, and that logging does not change it.  The second half is the whole
  example: its steps interleave with the goroutine's, and the two meet on the channel \<open>ready\<close>.
\<close>

record ('z, 'l) zap =
  zap_Level :: "'z \<Rightarrow> 'l"
  zap_SetLevel :: "'l \<Rightarrow> 'z \<Rightarrow> 'z"
  zap_Error :: "string \<Rightarrow> 'z \<Rightarrow> 'z"
  zap_DebugLevel :: 'l

definition zap_laws :: "('z, 'l, 'm) zap_scheme \<Rightarrow> bool" where
  "zap_laws Z \<longleftrightarrow>
     (\<forall>l z. zap_Level Z (zap_SetLevel Z l z) = l) \<and> (\<forall>msg z. zap_Level Z (zap_Error Z msg z) = zap_Level Z z)"

text \<open>An event of the watcher has a set of operations; the two the code asks for are flags.\<close>

datatype watch_event =
    FsEvent string bool bool
  | EventsClosed
  | FsError string
  | ErrorsClosed

text \<open>
  After each change of the level the goroutine signals on the unbuffered channel \<open>ready\<close>, where the
  example receives; \<open>receives\<close> counts the receptions that are still to come, and without one the
  goroutine is blocked.  When it returns it closes \<open>ready\<close>.
\<close>

datatype watch_end = Waiting | ReadyClosed | BlockedOnReady

fun watch_loop ::
  "('z, 'l, 'm) zap_scheme \<Rightarrow> string \<Rightarrow> 'l \<Rightarrow> nat \<Rightarrow> watch_event list \<Rightarrow> 'z \<Rightarrow> 'z \<times> watch_end" where
  "watch_loop Z file original receives [] z = (z, Waiting)"
| "watch_loop Z file original receives (EventsClosed # evs) z = (z, ReadyClosed)"
| "watch_loop Z file original receives (ErrorsClosed # evs) z = (z, ReadyClosed)"
| "watch_loop Z file original receives (FsError msg # evs) z =
     watch_loop Z file original receives evs (zap_Error Z msg z)"
| "watch_loop Z file original receives (FsEvent name create remove # evs) z =
     (if name = file \<and> (create \<or> remove) then
        (let z = (if create then zap_SetLevel Z (zap_DebugLevel Z) z else zap_SetLevel Z original z) in
         if receives = 0 then (z, BlockedOnReady)
         else watch_loop Z file original (receives - 1) evs z)
      else watch_loop Z file original receives evs z)"

definition watch :: "('z, 'l, 'm) zap_scheme \<Rightarrow> string \<Rightarrow> nat \<Rightarrow> watch_event list \<Rightarrow> 'z \<Rightarrow> 'z \<times> watch_end" where
  "watch Z file receives evs z =
     (let originalLevel = zap_Level Z z in watch_loop Z file originalLevel receives evs z)"

text \<open>
  Whether the last event about the file, before the channels are closed, left it in place, and how
  many such events there are.
\<close>

fun file_present :: "string \<Rightarrow> watch_event list \<Rightarrow> bool \<Rightarrow> bool" where
  "file_present file [] b \<longleftrightarrow> b"
| "file_present file (EventsClosed # evs) b \<longleftrightarrow> b"
| "file_present file (ErrorsClosed # evs) b \<longleftrightarrow> b"
| "file_present file (FsError msg # evs) b \<longleftrightarrow> file_present file evs b"
| "file_present file (FsEvent name create remove # evs) b \<longleftrightarrow>
     file_present file evs (if name = file then create \<or> b \<and> \<not> remove else b)"

fun file_changes :: "string \<Rightarrow> watch_event list \<Rightarrow> nat" where
  "file_changes file [] = 0"
| "file_changes file (EventsClosed # evs) = 0"
| "file_changes file (ErrorsClosed # evs) = 0"
| "file_changes file (FsError msg # evs) = file_changes file evs"
| "file_changes file (FsEvent name create remove # evs) =
     (if name = file \<and> (create \<or> remove) then 1 else 0) + file_changes file evs"

lemma watch_loop_level:
  assumes "zap_laws Z" "zap_Level Z z = (if b then zap_DebugLevel Z else original)"
    "file_changes file evs \<le> receives"
  shows "zap_Level Z (fst (watch_loop Z file original receives evs z)) =
      (if file_present file evs b then zap_DebugLevel Z else original) \<and>
    snd (watch_loop Z file original receives evs z) \<noteq> BlockedOnReady"
  using assms
proof (induction "file" evs b arbitrary: z receives rule: file_present.induct)
  case (5 path name create remove evs b)
  then show ?case by (cases create; cases remove) (auto split: if_splits simp: zap_laws_def Let_def)
qed (simp_all add: zap_laws_def)

lemma watch_loop_blocks:
  "receives < file_changes file evs \<Longrightarrow>
    snd (watch_loop Z file original receives evs z) = BlockedOnReady"
proof (induction Z "file" original receives evs z rule: watch_loop.induct)
  case (5 Z path original receives name create remove evs z)
  then show ?case by (cases "receives = 0") (auto simp: Let_def split: if_splits)
qed simp_all

text \<open>
  The logger's level follows the file: as long as the example receives the signals, the level is
  \<open>debug\<close> if the file was last seen created and the level it started with otherwise, whatever other
  files and watcher errors do in between; at the first change that nobody waits for, the goroutine
  blocks for ever.
\<close>

theorem level_follows_file:
  assumes "zap_laws Z" and "watch Z file receives evs z = (z', e)"
  shows "(file_changes file evs \<le> receives \<longrightarrow>
       zap_Level Z z' = (if file_present file evs False then zap_DebugLevel Z else zap_Level Z z) \<and>
       e \<noteq> BlockedOnReady) \<and>
    (receives < file_changes file evs \<longrightarrow> e = BlockedOnReady)"
  using watch_loop_level [of Z z False "zap_Level Z z" "file" evs receives]
    watch_loop_blocks [of receives "file" evs Z "zap_Level Z z" z] assms
  by (auto simp: watch_def)

subsection \<open>A logger\<close>

text \<open>
  Zap's levels, ordered by severity, and a logger that keeps the entries at or above its level: the
  laws hold for it, and the example of the code shows exactly the debug message in the middle.
\<close>

datatype level = DebugLevel | InfoLevel | WarnLevel | ErrorLevel | DPanicLevel | PanicLevel | FatalLevel

fun severity :: "level \<Rightarrow> int" where
  "severity DebugLevel = - 1"
| "severity InfoLevel = 0"
| "severity WarnLevel = 1"
| "severity ErrorLevel = 2"
| "severity DPanicLevel = 3"
| "severity PanicLevel = 4"
| "severity FatalLevel = 5"

lemma severity_inj: "severity a = severity b \<longleftrightarrow> a = b"
  by (cases a; cases b) simp_all

instantiation level :: linorder
begin

definition less_eq_level :: "level \<Rightarrow> level \<Rightarrow> bool" where
  "less_eq_level a b \<longleftrightarrow> severity a \<le> severity b"

definition less_level :: "level \<Rightarrow> level \<Rightarrow> bool" where
  "less_level a b \<longleftrightarrow> severity a < severity b"

instance
  by intro_classes (auto simp: less_eq_level_def less_level_def severity_inj [symmetric])

end

lemma level_order [simp]:
  "DebugLevel \<le> l" "\<not> InfoLevel \<le> DebugLevel" "InfoLevel \<le> ErrorLevel"
  by (cases l) (simp_all add: less_eq_level_def)

record zlogger =
  atomicLevel :: level
  entries :: "(level \<times> string) list"

definition zlog :: "level \<Rightarrow> string \<Rightarrow> zlogger \<Rightarrow> zlogger" where
  "zlog l msg z = (if atomicLevel z \<le> l then z\<lparr>entries := entries z @ [(l, msg)]\<rparr> else z)"

definition plain_zap :: "(zlogger, level) zap" where
  "plain_zap = \<lparr>zap_Level = atomicLevel, zap_SetLevel = (\<lambda>l z. z\<lparr>atomicLevel := l\<rparr>),
     zap_Error = zlog ErrorLevel, zap_DebugLevel = DebugLevel\<rparr>"

lemma plain_zap_laws: "zap_laws plain_zap"
  by (simp add: zap_laws_def plain_zap_def zlog_def)

theorem level_follows_file_witness:
  "entries (zlog DebugLevel ''a'' (fst (watch plain_zap ''f'' 2 [FsEvent ''f'' True False, FsEvent ''g'' False True]
      \<lparr>atomicLevel = InfoLevel, entries = []\<rparr>))) = [(DebugLevel, ''a'')] \<and>
   snd (watch plain_zap ''f'' 0 [FsEvent ''f'' True False] \<lparr>atomicLevel = InfoLevel, entries = []\<rparr>) = BlockedOnReady"
proof -
  let ?evs = "[FsEvent ''f'' True False, FsEvent ''g'' False True]"
  let ?z = "\<lparr>atomicLevel = InfoLevel, entries = []\<rparr>"
  obtain z' e where w: "watch plain_zap ''f'' 2 ?evs ?z = (z', e)" by (metis prod.exhaust)
  have "atomicLevel z' = DebugLevel"
    using level_follows_file [OF plain_zap_laws w] by (simp add: plain_zap_def)
  moreover have "entries z' = []" using w by (auto simp: watch_def plain_zap_def Let_def)
  moreover obtain z2 e2 where w2: "watch plain_zap ''f'' 0 [FsEvent ''f'' True False] ?z = (z2, e2)"
    by (metis prod.exhaust)
  moreover have "e2 = BlockedOnReady" using level_follows_file [OF plain_zap_laws w2] by simp
  ultimately show ?thesis using w by (simp add: zlog_def less_eq_level_def)
qed

subsection \<open>The example\<close>

text \<open>
  The whole of \<open>Example_zapDynamicDebugging\<close>.  A logger with the two logging calls of the example, and
  what it has written.
\<close>

record 'z zap_logger = "('z, level) zap" +
  zap_new :: 'z
  zap_Log :: "level \<Rightarrow> string \<Rightarrow> 'z \<Rightarrow> 'z"
  zap_written :: "'z \<Rightarrow> (level \<times> string) list"

text \<open>
  \<open>zap.NewAtomicLevel\<close> starts at the info level, and an entry is written if it is at or above the
  level at that moment.
\<close>

definition zap_logger_laws :: "'z zap_logger \<Rightarrow> bool" where
  "zap_logger_laws Z \<longleftrightarrow>
     zap_laws Z \<and> zap_DebugLevel Z = DebugLevel \<and> zap_Error Z = zap_Log Z ErrorLevel \<and>
     zap_Level Z (zap_new Z) = InfoLevel \<and> zap_written Z (zap_new Z) = [] \<and>
     (\<forall>l z. zap_written Z (zap_SetLevel Z l z) = zap_written Z z) \<and>
     (\<forall>l msg z. zap_Level Z (zap_Log Z l msg z) = zap_Level Z z \<and>
        zap_written Z (zap_Log Z l msg z) = zap_written Z z @ (if zap_Level Z z \<le> l then [(l, msg)] else []))"

text \<open>
  The goroutine between two receptions: it takes events until it has to send on \<open>ready\<close>, where it
  stays until the example receives, or until a channel of the watcher is closed.  \<open>backlog\<close> are events
  that it has not taken yet.
\<close>

datatype watcher_state = Selecting | Sending | Returned

fun take_events ::
  "('z, 'l, 'm) zap_scheme \<Rightarrow> string \<Rightarrow> 'l \<Rightarrow> watch_event list \<Rightarrow> 'z \<Rightarrow> 'z \<times> watcher_state \<times> watch_event list" where
  "take_events Z file original [] z = (z, Selecting, [])"
| "take_events Z file original (EventsClosed # evs) z = (z, Returned, evs)"
| "take_events Z file original (ErrorsClosed # evs) z = (z, Returned, evs)"
| "take_events Z file original (FsError msg # evs) z = take_events Z file original evs (zap_Error Z msg z)"
| "take_events Z file original (FsEvent name create remove # evs) z =
     (if name = file \<and> create then (zap_SetLevel Z (zap_DebugLevel Z) z, Sending, evs)
      else if name = file \<and> remove then (zap_SetLevel Z original z, Sending, evs)
      else take_events Z file original evs z)"

text \<open>The loop above takes events in the same way, from one reception to the next.\<close>

lemma watch_loop_take_events:
  "watch_loop Z file original receives evs z =
     (case take_events Z file original evs z of
        (z, Selecting, _) \<Rightarrow> (z, Waiting)
      | (z, Returned, _) \<Rightarrow> (z, ReadyClosed)
      | (z, Sending, rest) \<Rightarrow>
          if receives = 0 then (z, BlockedOnReady) else watch_loop Z file original (receives - 1) rest z)"
  by (induction Z "file" original evs z rule: take_events.induct) (auto simp: Let_def)

record 'z dynamic =
  logger :: 'z
  goroutine :: watcher_state
  backlog :: "watch_event list"

definition meanwhile :: "'z zap_logger \<Rightarrow> string \<Rightarrow> level \<Rightarrow> watch_event list \<Rightarrow> 'z dynamic \<Rightarrow> 'z dynamic" where
  "meanwhile Z file original evs d =
     (if goroutine d = Selecting then
        (case take_events Z file original (backlog d @ evs) (logger d) of
           (z, g, rest) \<Rightarrow> \<lparr>logger = z, goroutine = g, backlog = rest\<rparr>)
      else d\<lparr>backlog := backlog d @ evs\<rparr>)"

text \<open>\<open><-ready\<close>: it takes the signal that is being sent, and returns at once when \<open>ready\<close> is closed.\<close>

definition receive_ready :: "'z dynamic \<Rightarrow> 'z dynamic option" where
  "receive_ready d =
     (case goroutine d of
        Selecting \<Rightarrow> None
      | Sending \<Rightarrow> Some (d\<lparr>goroutine := Selecting\<rparr>)
      | Returned \<Rightarrow> Some d)"

definition log_to :: "'z zap_logger \<Rightarrow> level \<Rightarrow> string \<Rightarrow> 'z dynamic \<Rightarrow> 'z dynamic" where
  "log_to Z l msg d = d\<lparr>logger := zap_Log Z l msg (logger d)\<rparr>"

text \<open>
  What the example meets: the results of its calls, and the events that the goroutine may take before
  each of the example's steps.
\<close>

record dynamic_env =
  MkdirTemp :: "string result"
  NewWatcher :: "go_error option"
  watcher_Add :: "go_error option"
  os_Create :: "go_error option"
  df_Close :: "go_error option"
  os_Remove :: "go_error option"
  before_log :: "watch_event list"
  before_created :: "watch_event list"
  before_debug :: "watch_event list"
  before_removed :: "watch_event list"
  before_end :: "watch_event list"
  before_info :: "watch_event list"

datatype 'z example_end = Finished 'z | LogFatal go_error | WaitsForReady 'z

definition after_removal :: "'z zap_logger \<Rightarrow> string \<Rightarrow> level \<Rightarrow> dynamic_env \<Rightarrow> 'z dynamic \<Rightarrow> 'z example_end" where
  "after_removal Z file original E d =
     (let d = meanwhile Z file original (before_removed E) d in
      case receive_ready d of
        None \<Rightarrow> WaitsForReady (logger d)
      | Some d \<Rightarrow>
          let d = meanwhile Z file original (before_end E) d;
              d = log_to Z DebugLevel ''this is below the logger's threshold again'' d;
              d = meanwhile Z file original (before_info E) d;
              d = log_to Z InfoLevel ''this is at the logger's current threshold'' d in
          Finished (logger d))"

definition after_creation :: "'z zap_logger \<Rightarrow> string \<Rightarrow> level \<Rightarrow> dynamic_env \<Rightarrow> 'z dynamic \<Rightarrow> 'z example_end" where
  "after_creation Z file original E d =
     (let d = meanwhile Z file original (before_created E) d in
      case receive_ready d of
        None \<Rightarrow> WaitsForReady (logger d)
      | Some d \<Rightarrow>
          let d = meanwhile Z file original (before_debug E) d;
              d = log_to Z DebugLevel ''this is now at the logger's threshold'' d in
          (case os_Remove E of
             Some err \<Rightarrow> LogFatal err
           | None \<Rightarrow> after_removal Z file original E d))"

definition Example_zapDynamicDebugging :: "'z zap_logger \<Rightarrow> dynamic_env \<Rightarrow> 'z example_end" where
  "Example_zapDynamicDebugging Z E =
     (case MkdirTemp E of
        Inl err \<Rightarrow> LogFatal err
      | Inr tempDir \<Rightarrow>
          let debugLevelFile = filepath_Join tempDir ''level.debug'';
              z = zap_new Z in
          (case NewWatcher E of
             Some err \<Rightarrow> LogFatal err
           | None \<Rightarrow>
          (case watcher_Add E of
             Some err \<Rightarrow> LogFatal err
           | None \<Rightarrow>
               let originalLevel = zap_Level Z z;
                   d = \<lparr>logger = z, goroutine = Selecting, backlog = []\<rparr>;
                   d = meanwhile Z debugLevelFile originalLevel (before_log E) d;
                   d = log_to Z DebugLevel ''this is below the logger's threshold'' d in
               (case os_Create E of
                  Some err \<Rightarrow> LogFatal err
                | None \<Rightarrow>
               (case df_Close E of
                  Some err \<Rightarrow> LogFatal err
                | None \<Rightarrow> after_creation Z debugLevelFile originalLevel E d)))))"

definition quiet :: "string \<Rightarrow> watch_event list \<Rightarrow> bool" where
  "quiet file evs \<longleftrightarrow> EventsClosed \<notin> set evs \<and> ErrorsClosed \<notin> set evs \<and> file_changes file evs = 0"

fun watch_errors :: "watch_event list \<Rightarrow> (level \<times> string) list" where
  "watch_errors [] = []"
| "watch_errors (FsError msg # evs) = (ErrorLevel, msg) # watch_errors evs"
| "watch_errors (ev # evs) = watch_errors evs"

lemma quiet_simps [simp]:
  "quiet file []"
  "quiet file (EventsClosed # evs) \<longleftrightarrow> False"
  "quiet file (ErrorsClosed # evs) \<longleftrightarrow> False"
  "quiet file (FsError msg # evs) \<longleftrightarrow> quiet file evs"
  "quiet file (FsEvent name create remove # evs) \<longleftrightarrow> \<not> (name = file \<and> (create \<or> remove)) \<and> quiet file evs"
  by (auto simp: quiet_def)

lemma quiet_append [simp]: "quiet file (a @ b) \<longleftrightarrow> quiet file a \<and> quiet file b"
  by (induction "file" a rule: file_changes.induct) auto

lemma watch_errors_append [simp]: "watch_errors (a @ b) = watch_errors a @ watch_errors b"
  by (induction a rule: watch_errors.induct) simp_all

text \<open>Quiet events leave the level, and each of the watcher's errors is logged.\<close>

lemma take_quiet:
  assumes "zap_logger_laws Z" "quiet file q" "zap_Level Z z \<le> ErrorLevel"
  shows "\<exists>z'. take_events Z file original (q @ evs) z = take_events Z file original evs z' \<and>
    zap_Level Z z' = zap_Level Z z \<and> zap_written Z z' = zap_written Z z @ watch_errors q"
  using assms(2,3)
proof (induction q arbitrary: z)
  case Nil
  then show ?case by auto
next
  case (Cons ev q)
  show ?case
  proof (cases ev)
    case (FsError msg)
    then show ?thesis using Cons.IH [of "zap_Error Z msg z"] Cons.prems assms(1)
      by (auto simp: zap_logger_laws_def)
  qed (use Cons.IH [of z] Cons.prems in auto)
qed

lemma meanwhile_quiet:
  assumes "zap_logger_laws Z" "quiet file (b @ evs)" "zap_Level Z z \<le> ErrorLevel"
  shows "\<exists>z'. meanwhile Z file original evs \<lparr>logger = z, goroutine = Selecting, backlog = b\<rparr> =
      \<lparr>logger = z', goroutine = Selecting, backlog = []\<rparr> \<and>
    zap_Level Z z' = zap_Level Z z \<and> zap_written Z z' = zap_written Z z @ watch_errors (b @ evs)"
  using take_quiet [OF assms, of original "[]"] by (auto simp: meanwhile_def)

lemma meanwhile_change:
  assumes "zap_logger_laws Z" "quiet file q" "zap_Level Z z \<le> ErrorLevel" "create \<or> remove"
  shows "\<exists>z'. meanwhile Z file original (q @ FsEvent file create remove # evs)
      \<lparr>logger = z, goroutine = Selecting, backlog = []\<rparr> = \<lparr>logger = z', goroutine = Sending, backlog = evs\<rparr> \<and>
    zap_Level Z z' = (if create then DebugLevel else original) \<and>
    zap_written Z z' = zap_written Z z @ watch_errors q"
  using take_quiet [OF assms(1-3), of original "FsEvent file create remove # evs"] assms(1,4)
  by (auto simp: meanwhile_def zap_logger_laws_def zap_laws_def)

lemma meanwhile_closed:
  assumes "zap_logger_laws Z" "quiet file q" "zap_Level Z z \<le> ErrorLevel"
  shows "\<exists>z'. meanwhile Z file original (q @ EventsClosed # evs)
      \<lparr>logger = z, goroutine = Selecting, backlog = []\<rparr> = \<lparr>logger = z', goroutine = Returned, backlog = evs\<rparr> \<and>
    zap_Level Z z' = zap_Level Z z \<and> zap_written Z z' = zap_written Z z @ watch_errors q"
  using take_quiet [OF assms, of original "EventsClosed # evs"] by (auto simp: meanwhile_def)

definition calls_succeed :: "dynamic_env \<Rightarrow> bool" where
  "calls_succeed E \<longleftrightarrow> NewWatcher E = None \<and> watcher_Add E = None \<and> os_Create E = None \<and> df_Close E = None \<and>
     os_Remove E = None"

lemma log_to_simps:
  assumes "zap_logger_laws Z"
  shows "log_to Z l msg \<lparr>logger = z, goroutine = g, backlog = b\<rparr> =
      \<lparr>logger = zap_Log Z l msg z, goroutine = g, backlog = b\<rparr>"
    "zap_Level Z (zap_Log Z l msg z) = zap_Level Z z"
    "zap_written Z (zap_Log Z l msg z) = zap_written Z z @ (if zap_Level Z z \<le> l then [(l, msg)] else [])"
  using assms by (simp_all add: log_to_def zap_logger_laws_def)

lemma after_removal_writes:
  assumes "zap_logger_laws Z" and "zap_Level Z z \<le> ErrorLevel"
    and "before_removed E = q1 @ FsEvent file False True # q2"
    and "quiet file (q1 @ q2 @ before_end E @ before_info E)"
  shows "\<exists>z'. after_removal Z file InfoLevel E \<lparr>logger = z, goroutine = Selecting, backlog = []\<rparr> = Finished z' \<and>
    zap_written Z z' = zap_written Z z @ watch_errors (q1 @ q2 @ before_end E @ before_info E) @
      [(InfoLevel, ''this is at the logger's current threshold'')]"
proof -
  note logs = log_to_simps [OF assms(1)]
  have q: "quiet file q1" "quiet file (q2 @ before_end E)" "quiet file ([] @ before_info E)" using assms(4) by simp_all
  obtain z1 where z1: "meanwhile Z file InfoLevel (before_removed E) \<lparr>logger = z, goroutine = Selecting, backlog = []\<rparr> =
      \<lparr>logger = z1, goroutine = Sending, backlog = q2\<rparr>"
    "zap_Level Z z1 = InfoLevel" "zap_written Z z1 = zap_written Z z @ watch_errors q1"
    using meanwhile_change [OF assms(1) q(1) assms(2), of False True InfoLevel q2] assms(3) by auto
  obtain z2 where z2: "meanwhile Z file InfoLevel (before_end E) \<lparr>logger = z1, goroutine = Selecting, backlog = q2\<rparr> =
      \<lparr>logger = z2, goroutine = Selecting, backlog = []\<rparr>"
    "zap_Level Z z2 = InfoLevel" "zap_written Z z2 = zap_written Z z1 @ watch_errors (q2 @ before_end E)"
    using meanwhile_quiet [OF assms(1) q(2), of z1 InfoLevel] z1(2) by auto
  let ?z = "zap_Log Z DebugLevel ''this is below the logger's threshold again'' z2"
  obtain z3 where z3: "meanwhile Z file InfoLevel (before_info E) \<lparr>logger = ?z, goroutine = Selecting, backlog = []\<rparr> =
      \<lparr>logger = z3, goroutine = Selecting, backlog = []\<rparr>"
    "zap_Level Z z3 = InfoLevel" "zap_written Z z3 = zap_written Z z2 @ watch_errors (before_info E)"
    using meanwhile_quiet [OF assms(1) q(3), of ?z InfoLevel] z2(2) by (auto simp: logs)
  show ?thesis
  proof (intro exI conjI)
    show "after_removal Z file InfoLevel E \<lparr>logger = z, goroutine = Selecting, backlog = []\<rparr> =
        Finished (zap_Log Z InfoLevel ''this is at the logger's current threshold'' z3)"
      by (simp add: after_removal_def receive_ready_def z1(1) z2(1) z3(1) logs)
    show "zap_written Z (zap_Log Z InfoLevel ''this is at the logger's current threshold'' z3) =
      zap_written Z z @ watch_errors (q1 @ q2 @ before_end E @ before_info E) @
      [(InfoLevel, ''this is at the logger's current threshold'')]"
      using z1(3) z2(3) z3(2,3) by (simp add: logs)
  qed
qed

text \<open>
  C20: The example of dynamic debugging does what its comment shows.  If its calls succeed and the
  watcher reports the debug file's creation and then its removal, and no other change of that file,
  the example finishes and the only entries that are not the watcher's own errors are the debug
  message between creation and removal and the final info message, whatever else the watcher reports
  and however the goroutine is scheduled.  If the watcher is closed before it has reported the
  creation, the example does not wait for it, and the debug message is lost; if the report never
  comes, it waits.
\<close>

theorem debug_while_file_present:
  assumes "zap_logger_laws Z" and "calls_succeed E" and "MkdirTemp E = Inr dir"
    and "file = filepath_Join dir ''level.debug''" and "quiet file (before_log E @ q1)"
  shows "(\<forall>q2 q3 q4.
       before_created E = q1 @ FsEvent file True r # q2 \<and> before_removed E = q3 @ FsEvent file False True # q4 \<and>
       quiet file (q2 @ before_debug E @ q3 @ q4 @ before_end E @ before_info E) \<longrightarrow>
       (\<exists>z. Example_zapDynamicDebugging Z E = Finished z \<and>
          zap_written Z z =
            watch_errors (before_log E @ q1 @ q2 @ before_debug E) @
            [(DebugLevel, ''this is now at the logger's threshold'')] @
            watch_errors (q3 @ q4 @ before_end E @ before_info E) @
            [(InfoLevel, ''this is at the logger's current threshold'')])) \<and>
    (\<forall>evs. before_created E = q1 @ EventsClosed # evs \<longrightarrow>
       (\<exists>z. Example_zapDynamicDebugging Z E = Finished z \<and>
          zap_written Z z = watch_errors (before_log E @ q1) @
            [(InfoLevel, ''this is at the logger's current threshold'')])) \<and>
    (before_created E = q1 \<longrightarrow> (\<exists>z. Example_zapDynamicDebugging Z E = WaitsForReady z))"
proof -
  note logs = log_to_simps [OF assms(1)]
  have new: "zap_Level Z (zap_new Z) = InfoLevel" "zap_written Z (zap_new Z) = []"
    using assms(1) by (simp_all add: zap_logger_laws_def)
  have q: "quiet file ([] @ before_log E)" "quiet file q1" using assms(5) by simp_all
  obtain z0 where z0: "meanwhile Z file InfoLevel (before_log E) \<lparr>logger = zap_new Z, goroutine = Selecting, backlog = []\<rparr> =
      \<lparr>logger = z0, goroutine = Selecting, backlog = []\<rparr>"
    "zap_Level Z z0 = InfoLevel" "zap_written Z z0 = watch_errors (before_log E)"
    using meanwhile_quiet [OF assms(1) q(1), of "zap_new Z" InfoLevel] new by auto
  define z where "z = zap_Log Z DebugLevel ''this is below the logger's threshold'' z0"
  define d where "d = \<lparr>logger = z, goroutine = Selecting, backlog = []\<rparr>"
  have z: "zap_Level Z z = InfoLevel" "zap_written Z z = watch_errors (before_log E)"
    using z0(2,3) by (simp_all add: z_def logs)
  have start: "Example_zapDynamicDebugging Z E = after_creation Z file InfoLevel E d"
    using assms(2-4) z0(1) new(1) by (simp add: Example_zapDynamicDebugging_def calls_succeed_def z_def d_def logs)
  have le: "zap_Level Z z \<le> ErrorLevel" using z by simp
  note rm = assms(2) [unfolded calls_succeed_def]
  show ?thesis
  proof (intro conjI allI impI)
    fix q2 q3 q4
    assume a: "before_created E = q1 @ FsEvent file True r # q2 \<and> before_removed E = q3 @ FsEvent file False True # q4 \<and>
       quiet file (q2 @ before_debug E @ q3 @ q4 @ before_end E @ before_info E)"
    obtain z1 where z1: "meanwhile Z file InfoLevel (before_created E) d = \<lparr>logger = z1, goroutine = Sending, backlog = q2\<rparr>"
      "zap_Level Z z1 = DebugLevel" "zap_written Z z1 = zap_written Z z @ watch_errors q1"
      using meanwhile_change [OF assms(1) q(2) le, of True r InfoLevel q2] a by (auto simp: d_def)
    obtain z2 where z2: "meanwhile Z file InfoLevel (before_debug E) \<lparr>logger = z1, goroutine = Selecting, backlog = q2\<rparr> =
        \<lparr>logger = z2, goroutine = Selecting, backlog = []\<rparr>"
      "zap_Level Z z2 = DebugLevel" "zap_written Z z2 = zap_written Z z1 @ watch_errors (q2 @ before_debug E)"
      using meanwhile_quiet [OF assms(1), of "file" q2 "before_debug E" z1 InfoLevel] z1(2) a by auto
    let ?z = "zap_Log Z DebugLevel ''this is now at the logger's threshold'' z2"
    have lvl: "zap_Level Z ?z \<le> ErrorLevel" using z2(2) by (simp add: logs)
    have wr: "zap_written Z ?z = watch_errors (before_log E @ q1 @ q2 @ before_debug E) @
        [(DebugLevel, ''this is now at the logger's threshold'')]"
      using z1(3) z2(2,3) z(2) by (simp add: logs)
    obtain z3 where z3: "after_removal Z file InfoLevel E \<lparr>logger = ?z, goroutine = Selecting, backlog = []\<rparr> = Finished z3"
      "zap_written Z z3 = zap_written Z ?z @ watch_errors (q3 @ q4 @ before_end E @ before_info E) @
        [(InfoLevel, ''this is at the logger's current threshold'')]"
      using after_removal_writes [OF assms(1) lvl, of E q3 "file" q4] a by auto
    have "Example_zapDynamicDebugging Z E = Finished z3"
      using rm by (simp add: start after_creation_def receive_ready_def z1(1) z2(1) z3(1) logs)
    then show "\<exists>z. Example_zapDynamicDebugging Z E = Finished z \<and>
          zap_written Z z =
            watch_errors (before_log E @ q1 @ q2 @ before_debug E) @
            [(DebugLevel, ''this is now at the logger's threshold'')] @
            watch_errors (q3 @ q4 @ before_end E @ before_info E) @
            [(InfoLevel, ''this is at the logger's current threshold'')]"
      using z3(2) unfolding wr append_assoc by (intro exI [of _ z3] conjI)
  next
    fix evs assume a: "before_created E = q1 @ EventsClosed # evs"
    obtain z1 where z1: "meanwhile Z file InfoLevel (before_created E) d = \<lparr>logger = z1, goroutine = Returned, backlog = evs\<rparr>"
      "zap_Level Z z1 = InfoLevel" "zap_written Z z1 = zap_written Z z @ watch_errors q1"
      using meanwhile_closed [OF assms(1) q(2) le, of InfoLevel evs] a z by (auto simp: d_def)
    then show "\<exists>z. Example_zapDynamicDebugging Z E = Finished z \<and>
          zap_written Z z = watch_errors (before_log E @ q1) @
            [(InfoLevel, ''this is at the logger's current threshold'')]"
      using rm z by (simp add: start after_creation_def after_removal_def receive_ready_def meanwhile_def logs)
  next
    assume "before_created E = q1"
    then show "\<exists>z. Example_zapDynamicDebugging Z E = WaitsForReady z"
      using meanwhile_quiet [OF assms(1), of "file" "[]" q1 z InfoLevel] q(2) le
      by (auto simp: start after_creation_def receive_ready_def d_def)
  qed
qed

definition plain_zap_logger :: "zlogger zap_logger" where
  "plain_zap_logger = zap.extend plain_zap
     \<lparr>zap_new = \<lparr>atomicLevel = InfoLevel, entries = []\<rparr>, zap_Log = zlog, zap_written = entries\<rparr>"

lemma plain_zap_logger_laws: "zap_logger_laws plain_zap_logger"
  by (simp add: zap_logger_laws_def zap_laws_def plain_zap_logger_def zap.extend_def plain_zap_def zlog_def)

definition dynamic_run :: dynamic_env where
  "dynamic_run = \<lparr>MkdirTemp = Inr ''/tmp/1'', NewWatcher = None, watcher_Add = None, os_Create = None,
     df_Close = None, os_Remove = None, before_log = [], before_created = [FsEvent ''/tmp/1/level.debug'' True False],
     before_debug = [FsError ''overflow''], before_removed = [FsEvent ''/tmp/1/level.debug'' False True],
     before_end = [], before_info = []\<rparr>"

theorem debug_while_file_present_witness:
  "\<exists>z. Example_zapDynamicDebugging plain_zap_logger dynamic_run = Finished z \<and>
     entries z = [(ErrorLevel, ''overflow''), (DebugLevel, ''this is now at the logger's threshold''),
       (InfoLevel, ''this is at the logger's current threshold'')]"
proof -
  have join: "''/tmp/1/level.debug'' = filepath_Join ''/tmp/1'' ''level.debug''" by code_simp
  have ok: "calls_succeed dynamic_run" "MkdirTemp dynamic_run = Inr ''/tmp/1''"
    "quiet ''/tmp/1/level.debug'' (before_log dynamic_run @ [])"
    by (simp_all add: calls_succeed_def dynamic_run_def)
  have "\<exists>z. Example_zapDynamicDebugging plain_zap_logger dynamic_run = Finished z \<and>
      zap_written plain_zap_logger z = [(ErrorLevel, ''overflow''), (DebugLevel, ''this is now at the logger's threshold''),
       (InfoLevel, ''this is at the logger's current threshold'')]"
    using debug_while_file_present [OF plain_zap_logger_laws ok(1,2) join ok(3), of False, THEN conjunct1,
        rule_format, of "[]" "[]" "[]"]
    by (simp add: dynamic_run_def)
  then show ?thesis by (simp add: plain_zap_logger_def zap.extend_def)
qed

end
