(* ===== verification/ZapExamples.thy ===== *)
theory ZapExamples
  imports Levels
begin

text \<open>
  The logging examples of chapter13: encoder.go, console.go, concurrent.go, sample.go, rotation.go.
  What they put together themselves is modelled: the encoder configuration, the cores with their
  encoders, destinations and thresholds, and the calls they make.  zap is a parameter \<open>zap_lib\<close>: it
  makes cores and joins the names of loggers, and \<open>logged\<close> is what each destination has received after a sequence of entries with the
  times at which they were logged.  \<open>zap_lib_laws\<close> is what the comments in the code and the library's
  documentation say: a logger has no name until it is given one, a core passes on what is at or above its threshold, a tee gives every entry to
  both cores, and a sampler passes on, per message and interval, the first entries and then every
  n-th.
\<close>

subsection \<open>Entries and encoders\<close>

datatype level_encoder = LowercaseLevel | CapitalLevel

datatype caller_encoder = ShortCaller

datatype time_encoder = ISO8601Time

record EncoderConfig =
  MessageKey :: string
  NameKey :: string
  LevelKey :: string
  EncodeLevel :: level_encoder
  CallerKey :: string
  EncodeCaller :: caller_encoder
  TimeKey :: string
  EncodeTime :: time_encoder

definition encoderCfg :: EncoderConfig where
  "encoderCfg =
     \<lparr>MessageKey = ''message'', NameKey = ''name'', LevelKey = ''level'', EncodeLevel = LowercaseLevel,
      CallerKey = ''caller'', EncodeCaller = ShortCaller, TimeKey = ''time'', EncodeTime = ISO8601Time\<rparr>"

datatype encoder = JSONEncoder (encoder_cfg: EncoderConfig) | ConsoleEncoder (encoder_cfg: EncoderConfig)

datatype sink = Stdout | LogBuffer | RotatedFile

record log_entry =
  entry_level :: level
  entry_msg :: string
  entry_name :: string
  entry_fields :: "(string \<times> string) list"
  entry_caller :: bool

text \<open>
  A logger without its core: the name, the fields and whether the caller is added, as the options of
  \<open>zap.New\<close> set them.
\<close>

record log_opts =
  opt_name :: string
  opt_fields :: "(string \<times> string) list"
  opt_caller :: bool

definition plain_opts :: log_opts where
  "plain_opts = \<lparr>opt_name = [], opt_fields = [], opt_caller = False\<rparr>"

definition log_entry_of :: "log_opts \<Rightarrow> level \<Rightarrow> string \<Rightarrow> log_entry" where
  "log_entry_of o1 l msg =
     \<lparr>entry_level = l, entry_msg = msg, entry_name = opt_name o1, entry_fields = opt_fields o1,
      entry_caller = opt_caller o1\<rparr>"

type_synonym timed_entry = "duration \<times> log_entry"

type_synonym written = "(encoder \<times> log_entry) list"

subsection \<open>The library\<close>

record 'core zap_lib =
  join_name :: "string \<Rightarrow> string \<Rightarrow> string"
  NewCore :: "encoder \<Rightarrow> sink \<Rightarrow> level \<Rightarrow> 'core"
  NewTee :: "'core \<Rightarrow> 'core \<Rightarrow> 'core"
  NewSampler :: "'core \<Rightarrow> duration \<Rightarrow> nat \<Rightarrow> nat \<Rightarrow> 'core"
  logged :: "'core \<Rightarrow> timed_entry list \<Rightarrow> sink \<Rightarrow> written"

definition Named :: "'core zap_lib \<Rightarrow> string \<Rightarrow> log_opts \<Rightarrow> log_opts" where
  "Named Z n o1 = o1\<lparr>opt_name := join_name Z (opt_name o1) n\<rparr>"

text \<open>
  The documented sampling: for each level and message a counter, which starts again at the first entry
  after its interval; the counter's state is how many were seen and when the interval ends.
\<close>

fun sampled ::
  "duration \<Rightarrow> nat \<Rightarrow> nat \<Rightarrow> (level \<times> string \<Rightarrow> (nat \<times> duration) option) \<Rightarrow> timed_entry list \<Rightarrow> timed_entry list" where
  "sampled tick first thereafter seen [] = []"
| "sampled tick first thereafter seen ((t, e) # es) =
     (let key = (entry_level e, entry_msg e);
          (n, until) = (case seen key of
             None \<Rightarrow> (1, t + tick)
           | Some (n, until) \<Rightarrow> if t < until then (n + 1, until) else (1, t + tick));
          rest = sampled tick first thereafter (seen(key \<mapsto> (n, until))) es in
      if n \<le> first \<or> thereafter \<noteq> 0 \<and> (n - first) mod thereafter = 0 then (t, e) # rest else rest)"

definition zap_lib_laws :: "'core zap_lib \<Rightarrow> bool" where
  "zap_lib_laws Z \<longleftrightarrow>
     (\<forall>n. join_name Z [] n = n) \<and>
     (\<forall>enc s l es x. logged Z (NewCore Z enc s l) es x =
        (if x = s then map (\<lambda>(t, e). (enc, e)) (filter (\<lambda>(t, e). l \<le> entry_level e) es) else [])) \<and>
     (\<forall>a b es x. logged Z b es x = [] \<longrightarrow> logged Z (NewTee Z a b) es x = logged Z a es x) \<and>
     (\<forall>a b es x. logged Z a es x = [] \<longrightarrow> logged Z (NewTee Z a b) es x = logged Z b es x) \<and>
     (\<forall>c tick n m es x. logged Z (NewSampler Z c tick n m) es x = logged Z c (sampled tick n m Map.empty es) x)"

subsection \<open>The examples\<close>

text \<open>Each returns what has been written to every destination; \<open>t\<close> is the time of its calls.\<close>

definition Example_zapJSON :: "'core zap_lib \<Rightarrow> string \<Rightarrow> duration \<Rightarrow> sink \<Rightarrow> written" where
  "Example_zapJSON Z version t =
     (let core = NewCore Z (JSONEncoder encoderCfg) Stdout DebugLevel;
          zl = plain_opts\<lparr>opt_caller := True, opt_fields := [(''version'', version)]\<rparr>;
          example = Named Z ''example'' zl in
      logged Z core
        [(t, log_entry_of example DebugLevel ''test debug message''),
         (t, log_entry_of example InfoLevel ''test info message'')])"

definition Example_zapConsole :: "'core zap_lib \<Rightarrow> duration \<Rightarrow> sink \<Rightarrow> written" where
  "Example_zapConsole Z t =
     (let core = NewCore Z (ConsoleEncoder encoderCfg) Stdout InfoLevel;
          console = Named Z ''[console]'' plain_opts in
      logged Z core
        [(t, log_entry_of console InfoLevel ''this is logged by the logger''),
         (t, log_entry_of console DebugLevel ''this is below the logger's threshold and won't log''),
         (t, log_entry_of console ErrorLevel ''this is also logged by the logger'')])"

definition ucEncoderCfg :: EncoderConfig where
  "ucEncoderCfg = encoderCfg\<lparr>EncodeLevel := CapitalLevel\<rparr>"

text \<open>
  This example prints to standard output itself: a heading, then what the tee logs, and at the end the
  contents of the mock file.
\<close>

datatype printed = Printed string | Logged "encoder \<times> log_entry" | FileContents written

definition Example_zapInfoFileDebugConsole :: "'core zap_lib \<Rightarrow> duration \<Rightarrow> printed list" where
  "Example_zapInfoFileDebugConsole Z t =
     (let core = NewCore Z (JSONEncoder encoderCfg) LogBuffer InfoLevel;
          before = logged Z core
            [(t, log_entry_of plain_opts DebugLevel ''this is below the logger's threshold and won't log''),
             (t, log_entry_of plain_opts ErrorLevel ''this is logged by the logger'')];
          tee = NewTee Z core (NewCore Z (ConsoleEncoder ucEncoderCfg) Stdout DebugLevel);
          after = logged Z tee
            [(t, log_entry_of plain_opts DebugLevel ''this is only logged as console encoding''),
             (t, log_entry_of plain_opts InfoLevel ''this is logged as console encoding and JSON'')] in
      map Logged (before Stdout) @ [Printed (''standard output:'' @ newline)] @ map Logged (after Stdout) @
      [Printed (newline @ ''log file contents:'' @ newline), FileContents (before LogBuffer @ after LogBuffer)])"

text \<open>
  \<open>slept\<close> is how long \<open>time.Sleep(time.Second)\<close> really takes, \<open>took k\<close> the time from the \<open>k\<close>-th logging
  call to the next one without that sleep, \<open>n\<close> the number of iterations left.
\<close>

fun sampling_loop :: "(nat \<Rightarrow> duration) \<Rightarrow> duration \<Rightarrow> nat \<Rightarrow> nat \<Rightarrow> duration \<Rightarrow> timed_entry list" where
  "sampling_loop took slept i 0 t = []"
| "sampling_loop took slept i (Suc n) t =
     (let t = (if i = 5 then t + slept else t); t' = t + took (2 * i) in
      (t, log_entry_of plain_opts DebugLevel (show_nat i)) #
      (t', log_entry_of plain_opts DebugLevel ''debug message'') #
      sampling_loop took slept (Suc i) n (t' + took (2 * i + 1)))"

definition Example_zapSampling :: "'core zap_lib \<Rightarrow> (nat \<Rightarrow> duration) \<Rightarrow> duration \<Rightarrow> duration \<Rightarrow> sink \<Rightarrow> written" where
  "Example_zapSampling Z took slept t =
     (let core = NewSampler Z (NewCore Z (JSONEncoder encoderCfg) Stdout DebugLevel) second 1 3 in
      logged Z core (sampling_loop took slept 0 10 t))"

record lumberjack_Logger =
  Filename :: string
  Compress :: bool
  LocalTime :: bool
  MaxAge :: nat
  MaxBackups :: nat
  MaxSize :: nat

definition rotated_log :: "string \<Rightarrow> lumberjack_Logger" where
  "rotated_log tempDir =
     \<lparr>Filename = filepath_Join tempDir ''debug.log'', Compress = True, LocalTime = True, MaxAge = 7, MaxBackups = 5,
      MaxSize = 100\<rparr>"

text \<open>The rotated file is one more destination; the test fails if no directory can be made.\<close>

definition TestZapLogRotation ::
  "'core zap_lib \<Rightarrow> string result \<Rightarrow> duration \<Rightarrow> (lumberjack_Logger \<times> (sink \<Rightarrow> written)) result" where
  "TestZapLogRotation Z tempDir t =
     (case tempDir of
        Inl err \<Rightarrow> Inl err
      | Inr dir \<Rightarrow>
          Inr (rotated_log dir,
               logged Z (NewCore Z (JSONEncoder encoderCfg) RotatedFile DebugLevel)
                 [(t, log_entry_of plain_opts DebugLevel ''debug message written to the log file'')]))"

subsection \<open>What they print\<close>

lemma NewCore_logged:
  "zap_lib_laws Z \<Longrightarrow> logged Z (NewCore Z enc s l) es x =
    (if x = s then map (\<lambda>(t, e). (enc, e)) (filter (\<lambda>(t, e). l \<le> entry_level e) es) else [])"
  by (simp add: zap_lib_laws_def)

lemma Named_plain: "zap_lib_laws Z \<Longrightarrow> opt_name o1 = [] \<Longrightarrow> opt_name (Named Z n o1) = n"
  by (simp add: zap_lib_laws_def Named_def)

lemma Named_simps [simp]: "opt_fields (Named Z n o1) = opt_fields o1" "opt_caller (Named Z n o1) = opt_caller o1"
  by (simp_all add: Named_def)

lemma tee_logged:
  assumes "zap_lib_laws Z" "s \<noteq> s'"
  shows "logged Z (NewTee Z (NewCore Z enc s l) (NewCore Z enc' s' l')) es x =
    (if x = s then logged Z (NewCore Z enc s l) es x else logged Z (NewCore Z enc' s' l') es x)"
  using assms by (auto simp: zap_lib_laws_def)

lemma sampler_logged:
  "zap_lib_laws Z \<Longrightarrow> logged Z (NewSampler Z c tick n m) es x = logged Z c (sampled tick n m Map.empty es) x"
  by (simp add: zap_lib_laws_def)

text \<open>The time of the \<open>k\<close>-th logging call.\<close>

definition call_time :: "(nat \<Rightarrow> duration) \<Rightarrow> duration \<Rightarrow> duration \<Rightarrow> nat \<Rightarrow> duration" where
  "call_time took slept t k = t + (\<Sum>j<k. took j) + (if 10 \<le> k then slept else 0)"

lemma sampling_loop_times:
  "sampling_loop took slept i n (t + (\<Sum>j<2 * i. took j) + (if 5 < i then slept else 0)) =
    concat (map (\<lambda>i. [(call_time took slept t (2 * i), log_entry_of plain_opts DebugLevel (show_nat i)),
      (call_time took slept t (2 * i + 1), log_entry_of plain_opts DebugLevel ''debug message'')]) [i..<i + n])"
proof (induction n arbitrary: i)
  case 0
  then show ?case by simp
next
  case (Suc n)
  have start: "t + (\<Sum>j<2 * i. took j) + (if 5 < i then slept else 0) + (if i = 5 then slept else 0) =
      call_time took slept t (2 * i)"
    by (auto simp: call_time_def)
  have between: "call_time took slept t (2 * i) + took (2 * i) = call_time took slept t (2 * i + 1)"
    by (auto simp: call_time_def)
  have after: "call_time took slept t (2 * i + 1) + took (2 * i + 1) =
      t + (\<Sum>j<2 * Suc i. took j) + (if 5 < Suc i then slept else 0)"
    by (auto simp: call_time_def)
  have "(if i = 5 then x + slept else x) = x + (if i = 5 then slept else 0)" for x by simp
  then show ?case
    using Suc [of "Suc i", folded after]
    by (simp add: Let_def start between upt_conv_Cons del: upt_Suc mult_Suc_right sum.lessThan_Suc)
qed

lemma call_time_mono:
  assumes "\<forall>k. 0 \<le> took k" "0 \<le> slept" "k \<le> l"
  shows "call_time took slept t k \<le> call_time took slept t l"
proof -
  have "(\<Sum>j<k. took j) \<le> (\<Sum>j<l. took j)" using assms(1,3) by (intro sum_mono2) auto
  then show ?thesis using assms(2,3) by (simp add: call_time_def)
qed

lemma show_digit: "n < 10 \<Longrightarrow> show_nat n = [digit_char n]"
  by (simp add: show_nat.simps)

lemma digit_chars:
  "digit_char 0 = CHR ''0''" "digit_char 1 = CHR ''1''" "digit_char (Suc 0) = CHR ''1''"
  "digit_char 2 = CHR ''2''" "digit_char 3 = CHR ''3''"
  "digit_char 4 = CHR ''4''" "digit_char 5 = CHR ''5''" "digit_char 6 = CHR ''6''" "digit_char 7 = CHR ''7''"
  "digit_char 8 = CHR ''8''" "digit_char 9 = CHR ''9''"
  by code_simp+

text \<open>
  The sampled entries: the first and the fourth \<open>debug message\<close> before the sleep, and again the first
  and the fourth after it; the numbers differ, so all of them.
\<close>

definition debug_entry :: "string \<Rightarrow> log_entry" where
  "debug_entry msg = log_entry_of plain_opts DebugLevel msg"

lemma debug_entry_simps [simp]:
  "entry_level (debug_entry msg) = DebugLevel" "entry_msg (debug_entry msg) = msg"
  by (simp_all add: debug_entry_def log_entry_of_def)

lemma sampling_loop_entries:
  "sampling_loop took slept 0 10 t =
    concat (map (\<lambda>(i, d). [(call_time took slept t (2 * i), debug_entry [d]),
        (call_time took slept t (2 * i + 1), debug_entry ''debug message'')])
      [(0, CHR ''0''), (1, CHR ''1''), (2, CHR ''2''), (3, CHR ''3''), (4, CHR ''4''),
       (5, CHR ''5''), (6, CHR ''6''), (7, CHR ''7''), (8, CHR ''8''), (9, CHR ''9'')])"
  using sampling_loop_times [of took slept 0 10 t]
  by (simp add: upt_conv_Cons show_digit debug_entry_def digit_chars numeral_2_eq_2 [symmetric] del: upt_Suc)

lemma sampled_first:
  "seen (DebugLevel, m) = None \<or> (\<exists>n u. seen (DebugLevel, m) = Some (n, u) \<and> u \<le> t) \<Longrightarrow>
   sampled tick (Suc 0) 3 seen ((t, debug_entry m) # es) =
     (t, debug_entry m) # sampled tick (Suc 0) 3 (seen((DebugLevel, m) \<mapsto> (1, t + tick))) es"
  by (auto simp: Let_def)

lemma sampled_again:
  "seen (DebugLevel, m) = Some (n, u) \<Longrightarrow> t < u \<Longrightarrow> n = k \<Longrightarrow>
   sampled tick (Suc 0) 3 seen ((t, debug_entry m) # es) =
     (if k mod 3 = 0 then (t, debug_entry m) # sampled tick (Suc 0) 3 (seen((DebugLevel, m) \<mapsto> (k + 1, u))) es
      else sampled tick (Suc 0) 3 (seen((DebugLevel, m) \<mapsto> (k + 1, u))) es)"
  by (auto simp: Let_def)

text \<open>
  The calls are quick enough when less than a second passes from the first \<open>debug message\<close> to the
  fifth, and from the sixth to the tenth.
\<close>

definition quick :: "(nat \<Rightarrow> duration) \<Rightarrow> bool" where
  "quick took \<longleftrightarrow> (\<forall>k. 0 \<le> took k) \<and> (\<Sum>k\<in>{1..8}. took k) < second \<and> (\<Sum>k\<in>{11..18}. took k) < second"

lemma quick_windows:
  assumes "quick took" "second \<le> slept"
  shows "k \<le> 9 \<Longrightarrow> call_time took slept t k < call_time took slept t 1 + second"
    "call_time took slept t 1 + second \<le> call_time took slept t 11"
    "k \<le> 19 \<Longrightarrow> call_time took slept t k < call_time took slept t 11 + second"
proof -
  have pos: "\<forall>k. 0 \<le> took k" "0 \<le> slept" using assms by (auto simp: quick_def second_def)
  note mono = call_time_mono [OF pos]
  have split: "(\<Sum>j<Suc b. took j) = (\<Sum>j<a. took j) + (\<Sum>j\<in>{a..b}. took j)" if "a \<le> b" for a b
  proof -
    have u: "{..<Suc b} = {..<a} \<union> {a..b}" using that by auto
    show ?thesis unfolding u by (rule sum.union_disjoint) auto
  qed
  have "call_time took slept t 9 = call_time took slept t 1 + (\<Sum>j\<in>{1..8}. took j)"
    using split [of 1 8] by (simp add: call_time_def)
  then show "k \<le> 9 \<Longrightarrow> call_time took slept t k < call_time took slept t 1 + second"
    using mono [of k 9 t] assms(1) by (simp add: quick_def)
  have "(\<Sum>j<1. took j) \<le> (\<Sum>j<11. took j)" using pos by (intro sum_mono2) auto
  then show "call_time took slept t 1 + second \<le> call_time took slept t 11"
    using assms(2) by (simp add: call_time_def)
  have "call_time took slept t 19 = call_time took slept t 11 + (\<Sum>j\<in>{11..18}. took j)"
    using split [of 11 18] by (simp add: call_time_def)
  then show "k \<le> 19 \<Longrightarrow> call_time took slept t k < call_time took slept t 11 + second"
    using mono [of k 19 t] assms(1) by (simp add: quick_def)
qed

definition sampled_messages :: "string list" where
  "sampled_messages = [''0'', ''debug message'', ''1'', ''2'', ''3'', ''debug message'', ''4'', ''5'',
      ''debug message'', ''6'', ''7'', ''8'', ''debug message'', ''9'']"

lemma sampled_loop:
  assumes "quick took" "second \<le> slept"
  shows "map snd (sampled second 1 3 Map.empty (sampling_loop took slept 0 10 t)) = map debug_entry sampled_messages"
proof -
  note w = quick_windows [OF assms, unfolded One_nat_def]
  have "0 < second" by (simp add: second_def)
  then show ?thesis
    unfolding sampling_loop_entries
    by (simp del: sampled.simps(2) add: sampled_first sampled_again w(1) w(2) w(3) sampled_messages_def)
qed

lemma sampled_example:
  assumes "zap_lib_laws Z" "quick took" "second \<le> slept"
  shows "Example_zapSampling Z took slept t x =
    (if x = Stdout then map (\<lambda>m. (JSONEncoder encoderCfg, debug_entry m)) sampled_messages else [])"
proof -
  have "map (Pair (JSONEncoder encoderCfg)) (map snd (sampled second 1 3 Map.empty (sampling_loop took slept 0 10 t))) =
      map (\<lambda>m. (JSONEncoder encoderCfg, debug_entry m)) sampled_messages"
    unfolding sampled_loop [OF assms(2,3)] by simp
  then show ?thesis
    using assms(1)
    by (simp add: Example_zapSampling_def sampler_logged NewCore_logged comp_def case_prod_beta'
        del: sampled.simps sampling_loop.simps)
qed

lemmas zap_example_defs = log_entry_of_def plain_opts_def Named_plain Let_def NewCore_logged tee_logged

text \<open>
  C39: What the examples write, entry by entry, with the encoder that formats it, and nothing else
  anywhere.  The JSON example writes both its entries to standard output, with the logger's name, the
  caller and the version; the console example what is at the info level or above, under the name
  \<open>[console]\<close> and with the console encoder; in the two-core example everything logged through the
  clone appears under the heading, console-encoded with capital level names, and then the mock
  file's contents, in JSON what is at the info level or above, before and after the clone is made.
  The sampling example writes the entries that the comment shows, whatever time its calls take, if
  the sleep lasts its second at least and less than a second passes from the first \<open>debug message\<close> to
  the fifth and from the sixth to the tenth.  The rotation test, with a directory to use, writes one
  entry to the log it has configured, and fails without one.  The key of the message is \<open>message\<close>
  throughout, where the comments show \<open>msg\<close>, and there is a time the comments do not show.
\<close>

theorem zap_examples_print:
  assumes "zap_lib_laws Z"
    and "\<forall>k. 0 \<le> took k" and "(\<Sum>k\<in>{1..8}. took k) < second" and "(\<Sum>k\<in>{11..18}. took k) < second"
    and "second \<le> slept"
  shows "let plain = (\<lambda>l m. \<lparr>entry_level = l, entry_msg = m, entry_name = [], entry_fields = [], entry_caller = False\<rparr>);
      console = (\<lambda>l m. (plain l m)\<lparr>entry_name := ''[console]''\<rparr>);
      json = (\<lambda>l m. \<lparr>entry_level = l, entry_msg = m, entry_name = ''example'',
        entry_fields = [(''version'', version)], entry_caller = True\<rparr>);
      capital = ConsoleEncoder (encoderCfg\<lparr>EncodeLevel := CapitalLevel\<rparr>) in
    Example_zapJSON Z version t x = (if x = Stdout then
      [(JSONEncoder encoderCfg, json DebugLevel ''test debug message''),
       (JSONEncoder encoderCfg, json InfoLevel ''test info message'')] else []) \<and>
    Example_zapConsole Z t x = (if x = Stdout then
      [(ConsoleEncoder encoderCfg, console InfoLevel ''this is logged by the logger''),
       (ConsoleEncoder encoderCfg, console ErrorLevel ''this is also logged by the logger'')] else []) \<and>
    Example_zapInfoFileDebugConsole Z t =
      [Printed (''standard output:'' @ newline),
       Logged (capital, plain DebugLevel ''this is only logged as console encoding''),
       Logged (capital, plain InfoLevel ''this is logged as console encoding and JSON''),
       Printed (newline @ ''log file contents:'' @ newline),
       FileContents
         [(JSONEncoder encoderCfg, plain ErrorLevel ''this is logged by the logger''),
          (JSONEncoder encoderCfg, plain InfoLevel ''this is logged as console encoding and JSON'')]] \<and>
    Example_zapSampling Z took slept t x = (if x = Stdout then
      map (\<lambda>m. (JSONEncoder encoderCfg, plain DebugLevel m))
        [''0'', ''debug message'', ''1'', ''2'', ''3'', ''debug message'', ''4'', ''5'',
         ''debug message'', ''6'', ''7'', ''8'', ''debug message'', ''9''] else []) \<and>
    (case TestZapLogRotation Z tempDir t of
       Inl err \<Rightarrow> tempDir = Inl err
     | Inr (l, out) \<Rightarrow> \<exists>dir. tempDir = Inr dir \<and>
         l = \<lparr>Filename = filepath_Join dir ''debug.log'', Compress = True, LocalTime = True, MaxAge = 7,
           MaxBackups = 5, MaxSize = 100\<rparr> \<and>
         out x = (if x = RotatedFile
           then [(JSONEncoder encoderCfg, plain DebugLevel ''debug message written to the log file'')] else [])) \<and>
    encoderCfg = \<lparr>MessageKey = ''message'', NameKey = ''name'', LevelKey = ''level'', EncodeLevel = LowercaseLevel,
      CallerKey = ''caller'', EncodeCaller = ShortCaller, TimeKey = ''time'', EncodeTime = ISO8601Time\<rparr>"
proof -
  have q: "quick took" using assms(2-4) by (simp add: quick_def)
  have c: "encoderCfg = \<lparr>MessageKey = ''message'', NameKey = ''name'', LevelKey = ''level'', EncodeLevel = LowercaseLevel,
      CallerKey = ''caller'', EncodeCaller = ShortCaller, TimeKey = ''time'', EncodeTime = ISO8601Time\<rparr>"
    by (rule encoderCfg_def)
  show ?thesis
    unfolding Let_def
  proof (intro conjI c)
  qed (use assms(1) sampled_example [OF assms(1) q assms(5), of t x] in
      \<open>auto simp: Example_zapJSON_def Example_zapConsole_def Example_zapInfoFileDebugConsole_def
        TestZapLogRotation_def rotated_log_def ucEncoderCfg_def zap_example_defs sampled_messages_def
        debug_entry_def split: sum.split\<close>)
qed

text \<open>A core that does what the documentation says, as a function from entries to what is written.\<close>

definition plain_zap_lib :: "(timed_entry list \<Rightarrow> sink \<Rightarrow> written) zap_lib" where
  "plain_zap_lib =
     \<lparr>join_name = (\<lambda>old n. if old = [] then n else old @ ''.'' @ n),
      NewCore = (\<lambda>enc s l es x.
        if x = s then map (\<lambda>(t, e). (enc, e)) (filter (\<lambda>(t, e). l \<le> entry_level e) es) else []),
      NewTee = (\<lambda>a b es x. a es x @ b es x),
      NewSampler = (\<lambda>c tick n m es. c (sampled tick n m Map.empty es)),
      logged = (\<lambda>c. c)\<rparr>"

lemma plain_zap_lib_laws: "zap_lib_laws plain_zap_lib"
  by (simp add: zap_lib_laws_def plain_zap_lib_def)

theorem zap_examples_print_witness:
  "map (\<lambda>(enc, e). (entry_name e, entry_msg e)) (Example_zapConsole plain_zap_lib 0 Stdout) =
      [(''[console]'', ''this is logged by the logger''), (''[console]'', ''this is also logged by the logger'')] \<and>
   length (Example_zapSampling plain_zap_lib (\<lambda>k. 1000) (second + 1) 0 Stdout) = 14"
proof -
  have t: "\<forall>k::nat. 0 \<le> (1000 :: int)" "(\<Sum>k\<in>{1..8::nat}. 1000) < second" "(\<Sum>k\<in>{11..18::nat}. 1000) < second"
    "second \<le> second + 1"
    by (simp_all add: second_def)
  note ex = zap_examples_print [OF plain_zap_lib_laws, of "\<lambda>k. 1000" "second + 1", OF t,
      of "[]" 0 Stdout "Inl EOF", unfolded Let_def]
  show ?thesis using ex by simp
qed

end
