(* ===== verification/Port.thy ===== *)
theory Port
  imports GoStrings
begin

text \<open>
  Chapter4/port.go: a TCP ping.  The results of the successive dials are a list; the loop runs
  \<open>count\<close> times, or for ever when \<open>count\<close> is not positive, and stops at a permanent error.  The
  sleeping and the measured times are left out of the output.  \<open>DialTimeout\<close> of chapter3/main.go, which
  replaces connecting by a time-out, comes last.
\<close>

datatype dial_result = Connected | DialFailed bool string

datatype port_exit = Exit nat | StillPinging

text \<open>
  \<open>msg\<close> counts the attempts; an attempt leaves its number and whether it connected.  \<open>DialFailed\<close>
  carries whether the error is a temporary \<open>net.Error\<close>.
\<close>

fun port_loop :: "int \<Rightarrow> int \<Rightarrow> dial_result list \<Rightarrow> (int \<times> bool) list \<times> port_exit" where
  "port_loop count msg ds =
     (if count \<le> 0 \<or> msg < count then
        (case ds of
           [] \<Rightarrow> ([], StillPinging)
         | Connected # ds \<Rightarrow>
             (case port_loop count (msg + 1) ds of (out, e) \<Rightarrow> ((msg + 1, True) # out, e))
         | DialFailed temporary err # ds \<Rightarrow>
             if temporary
             then (case port_loop count (msg + 1) ds of (out, e) \<Rightarrow> ((msg + 1, False) # out, e))
             else ([(msg + 1, False)], Exit 1))
      else ([], Exit 0))"

declare port_loop.simps [simp del]

definition port_main :: "string list \<Rightarrow> int \<Rightarrow> dial_result list \<Rightarrow> (int \<times> bool) list \<times> port_exit" where
  "port_main args count ds = (if length args \<noteq> 1 then ([], Exit 1) else port_loop count 0 ds)"

definition permanent :: "dial_result \<Rightarrow> bool" where
  "permanent d \<longleftrightarrow> (case d of Connected \<Rightarrow> False | DialFailed temporary _ \<Rightarrow> \<not> temporary)"

lemma port_loop_out:
  assumes "0 < count" "msg \<le> count" "nat (count - msg) \<le> length ds"
  shows "port_loop count msg ds =
     (let tried = take (nat (count - msg)) ds; good = takeWhile (\<lambda>d. \<not> permanent d) tried;
          n = (if \<exists>d\<in>set tried. permanent d then length good + 1 else length good) in
      (map (\<lambda>i. (msg + 1 + int i, ds ! i = Connected)) [0..<n],
       Exit (if \<exists>d\<in>set tried. permanent d then 1 else 0)))"
  using assms
proof (induction ds arbitrary: msg)
  case Nil
  then show ?case by (subst port_loop.simps) simp
next
  case (Cons d ds)
  show ?case
  proof (cases "msg = count")
    case True
    then show ?thesis using Cons.prems by (subst port_loop.simps) simp
  next
    case False
    then have n: "nat (count - msg) = Suc (nat (count - (msg + 1)))" and lt: "msg < count"
      using Cons.prems(2) by auto
    have IH: "port_loop count (msg + 1) ds =
      (let tried = take (nat (count - (msg + 1))) ds; good = takeWhile (\<lambda>d. \<not> permanent d) tried;
          n = (if \<exists>d\<in>set tried. permanent d then length good + 1 else length good) in
      (map (\<lambda>i. (msg + 1 + 1 + int i, ds ! i = Connected)) [0..<n],
       Exit (if \<exists>d\<in>set tried. permanent d then 1 else 0)))"
      using Cons.IH [of "msg + 1"] Cons.prems n lt by simp
    have shift: "map (\<lambda>i. (msg + 1 + int i, (d # ds) ! i = Connected)) [0..<Suc k] =
      (msg + 1, d = Connected) # map (\<lambda>i. (msg + 1 + 1 + int i, ds ! i = Connected)) [0..<k]" for k
      by (simp add: upt_conv_Cons map_Suc_upt [symmetric] comp_def add.assoc del: upt_Suc)
    show ?thesis
    proof (cases "permanent d")
      case True
      then show ?thesis using Cons.prems(1) lt n
        by (subst port_loop.simps) (cases d; auto simp: permanent_def)
    next
      case False
      have "port_loop count msg (d # ds) =
        (case port_loop count (msg + 1) ds of (out, e) \<Rightarrow> ((msg + 1, d = Connected) # out, e))"
        using False lt by (subst port_loop.simps) (cases d; auto simp: permanent_def)
      then show ?thesis
        unfolding IH n Let_def using False by (simp add: shift del: upt_Suc)
    qed
  qed
qed

text \<open>
  With a positive count the program stops after exactly that many attempts with status 0, or with
  status 1 right after the first attempt that fails for good; attempts are numbered from 1, and
  temporary failures do not stop it.
\<close>

theorem port_attempts:
  assumes "0 < count" and "nat count \<le> length ds"
  shows "let tried = take (nat count) ds; good = takeWhile (\<lambda>d. \<not> permanent d) tried;
      failed = (\<exists>d\<in>set tried. permanent d); n = (if failed then length good + 1 else nat count) in
    port_main [target] count ds =
      (map (\<lambda>i. (1 + int i, ds ! i = Connected)) [0..<n], Exit (if failed then 1 else 0))"
proof -
  have "length (takeWhile (\<lambda>d. \<not> permanent d) (take (nat count) ds)) = nat count"
    if "\<not> (\<exists>d\<in>set (take (nat count) ds). permanent d)"
    using that assms(2) by (subst takeWhile_eq_all_conv [THEN iffD2]) auto
  then show ?thesis
    using port_loop_out [of count 0 ds] assms by (auto simp: port_main_def Let_def)
qed

theorem port_attempts_witness:
  "port_main [''h:1''] 3 [Connected, DialFailed True ''t'', Connected, Connected] =
     ([(1, True), (2, False), (3, True)], Exit 0)"
  using port_attempts [of 3 "[Connected, DialFailed True ''t'', Connected, Connected]" "''h:1''"]
  by (simp add: Let_def permanent_def numeral_nat upt_conv_Cons del: upt_Suc)

subsection \<open>A dial that times out\<close>

text \<open>
  An error as the callers of package net see it, and \<open>net.Dialer.Dial\<close> as documented: the addresses
  the host resolves to are tried in order, \<open>Control\<close> is called before each is connected to and its
  error counts as the attempt's; if none connects, the first error is returned.  The time-out given
  to the dialer can only turn the result into another time-out and is left out.
\<close>

record net_error =
  Err :: string
  Name :: string
  Server :: string
  IsTimeout :: bool
  IsTemporary :: bool

fun dial_serial :: "(string \<Rightarrow> 'e option) \<Rightarrow> (string \<Rightarrow> 'e + 'c) \<Rightarrow> 'e option \<Rightarrow> string list \<Rightarrow> ('e option + 'c)" where
  "dial_serial control connect firstErr [] = Inl firstErr"
| "dial_serial control connect firstErr (a # as) =
     (case (case control a of Some e \<Rightarrow> Inl e | None \<Rightarrow> connect a) of
        Inr c \<Rightarrow> Inr c
      | Inl e \<Rightarrow> dial_serial control connect (case firstErr of None \<Rightarrow> Some e | Some e' \<Rightarrow> Some e') as)"

definition DialTimeout ::
  "(string \<Rightarrow> string \<Rightarrow> net_error + string list) \<Rightarrow> (string \<Rightarrow> net_error + 'c) \<Rightarrow> string \<Rightarrow> string \<Rightarrow>
   (net_error option + 'c)" where
  "DialTimeout resolve connect network address =
     (case resolve network address of
        Inl e \<Rightarrow> Inl (Some e)
      | Inr as \<Rightarrow>
          dial_serial
            (\<lambda>a. Some \<lparr>Err = ''connection timed out'', Name = a, Server = ''127.0.0.1'',
                      IsTimeout = True, IsTemporary = True\<rparr>)
            connect None as)"

text \<open>How port.go's loop sees the outcome of a dial.\<close>

definition dial_outcome :: "(net_error option + 'c) \<Rightarrow> dial_result" where
  "dial_outcome r =
     (case r of
        Inr c \<Rightarrow> Connected
      | Inl None \<Rightarrow> DialFailed False ''missing address''
      | Inl (Some e) \<Rightarrow> DialFailed (IsTimeout e \<or> IsTemporary e) (Err e))"

lemma dial_serial_fails:
  "dial_serial (\<lambda>a. Some (f a)) connect first as =
     Inl (case first of None \<Rightarrow> (case as of [] \<Rightarrow> None | a # _ \<Rightarrow> Some (f a)) | e \<Rightarrow> e)"
  by (induction "as" arbitrary: first) (auto split: option.splits list.splits)

text \<open>
  A dial through \<open>DialTimeout\<close> never connects: once the host has resolved it fails with a
  time-out, without trying to connect, and a TCP ping that used it would go on to the last attempt,
  since the failure counts as temporary.
\<close>

theorem dial_timeout_times_out:
  assumes "resolve network address = Inr (a # as)"
  shows "DialTimeout resolve connect network address =
      Inl (Some \<lparr>Err = ''connection timed out'', Name = a, Server = ''127.0.0.1'',
                 IsTimeout = True, IsTemporary = True\<rparr>) \<and>
    \<not> permanent (dial_outcome (DialTimeout resolve connect network address)) \<and>
    dial_outcome (DialTimeout resolve connect network address) \<noteq> Connected"
  using assms by (simp add: DialTimeout_def dial_serial_fails dial_outcome_def permanent_def)

theorem dial_timeout_times_out_witness:
  "DialTimeout (\<lambda>n a. Inr [a]) (\<lambda>a. Inr ()) ''tcp'' ''10.0.0.1:http'' \<noteq> Inr ()"
  using dial_timeout_times_out [of "\<lambda>n a. Inr [a]" "''tcp''" "''10.0.0.1:http''" "''10.0.0.1:http''" "[]" "\<lambda>a. Inr ()"]
  by simp

end
