(* ===== verification/Push.thy ===== *)
theory Push
  imports Handlers
begin

text \<open>
  Chapter9/push.go, the site that puts the handlers together: the routes of its \<open>ServeMux\<close>, server
  push, static files behind \<open>StripPrefix\<close> and \<open>RestrictPrefix\<close>, the configuration of the server
  and the shutdown of \<open>run\<close>; and chapter10/backend.go, the service behind Caddy, with its own \<open>run\<close>.

  push.go takes \<open>handlers.Methods\<close> and \<open>middleware.RestrictPrefix\<close> from the published module of the book
  (github.com/awoodbeck/gnp/ch09), so \<open>site\<close> has them as arguments: nothing is supposed of the first,
  and \<open>restrict_law\<close> of the second, which chapter9's own RestrictPrefix satisfies.  \<open>http.FileServer\<close>,
  \<open>http.ServeFile\<close>, the redirect handler of \<open>ServeMux\<close> and the push of a connection are parameters; the
  routing of \<open>ServeMux\<close> on the escaped path (Go 1.23) is written out for the patterns the code registers.
\<close>

subsection \<open>Routing\<close>

text \<open>The path that \<open>ServeMux\<close> redirects to when it differs from the request's.\<close>

definition mux_clean :: "string \<Rightarrow> string" where
  "mux_clean p =
     (let p = (if p = [] then ''/'' else if hd p \<noteq> CHR ''/'' then CHR ''/'' # p else p);
          np = path_Clean p in
      if last p = CHR ''/'' \<and> np \<noteq> ''/'' then np @ ''/'' else np)"

datatype route = RedirectTo string | StaticRoute | IndexRoute | Index2Route

text \<open>
  The patterns are \<open>/static/\<close> and \<open>/\<close> (subtrees) and \<open>/2\<close>.  They are matched, as net/http does it
  in Go 1.23, on the segments of the escaped path, each of them unescaped.
\<close>

definition path_segments :: "string \<Rightarrow> string list" where
  "path_segments p =
     map (\<lambda>s. case url_unescape s of None \<Rightarrow> s | Some t \<Rightarrow> t) (split_on CHR ''/'' (tl p))"

definition mux_match :: "string \<Rightarrow> route" where
  "mux_match p =
     (let segs = path_segments p in
      if hd segs = ''static'' \<and> 2 \<le> length segs then StaticRoute
      else if segs = [''2''] then Index2Route
      else IndexRoute)"

text \<open>A subtree's pattern is matched exactly by the path of its root.\<close>

fun exact_match :: "route \<Rightarrow> string \<Rightarrow> bool" where
  "exact_match StaticRoute p \<longleftrightarrow> p \<noteq> [] \<and> last p = CHR ''/'' \<and> count_list p CHR ''/'' = 2"
| "exact_match IndexRoute p \<longleftrightarrow> p \<noteq> [] \<and> last p = CHR ''/'' \<and> count_list p CHR ''/'' = 1"
| "exact_match Index2Route p \<longleftrightarrow> True"
| "exact_match (RedirectTo q) p \<longleftrightarrow> False"

text \<open>
  \<open>findHandler\<close>: a path that only lacks the slash of a registered subtree is redirected to it, and an
  escaped path that is not clean to its clean form; a CONNECT request is matched as it is.
\<close>

definition mux_route :: "request \<Rightarrow> route" where
  "mux_route r =
     (let escaped = EscapedPath r;
          p = (if Method r = ''CONNECT'' then escaped else mux_clean escaped) in
      if \<not> exact_match (mux_match p) p \<and> (p = [] \<or> last p \<noteq> CHR ''/'') \<and>
         exact_match (mux_match (p @ ''/'')) (p @ ''/'')
      then RedirectTo (mux_clean (url_path r) @ ''/'')
      else if p \<noteq> escaped then RedirectTo p
      else mux_match p)"

text \<open>The handler of \<open>/\<close>: push the two resources if the writer can push, then serve the page.\<close>

fun push_all :: "(string \<Rightarrow> go_error option) \<Rightarrow> string list \<Rightarrow> response \<times> string list \<Rightarrow> response \<times> string list" where
  "push_all push [] s = s"
| "push_all push (target # ts) (w, log) =
     (case push target of
        None \<Rightarrow> push_all push ts (w\<lparr>pushed := pushed w @ [target]\<rparr>, log)
      | Some err \<Rightarrow> push_all push ts (w, log @ [target @ '' push failed'']))"

definition push_targets :: "string list" where
  "push_targets = [''/static/style.css'', ''/static/hiking.svg'']"

definition index_handler ::
  "(string \<Rightarrow> go_error option) \<Rightarrow> (string \<Rightarrow> handler) \<Rightarrow> string \<Rightarrow> handler" where
  "index_handler push serve_file files r w =
     (let w = (if can_push w then fst (push_all push push_targets (w, [])) else w) in
      serve_file (filepath_Join files ''index.html'') r w)"

text \<open>The handler that \<open>run\<close> gives to the server.\<close>

definition site ::
  "((string \<times> handler option) list \<Rightarrow> handler) \<Rightarrow> (string \<Rightarrow> handler \<Rightarrow> handler) \<Rightarrow>
   (string \<Rightarrow> go_error option) \<Rightarrow> (string \<Rightarrow> handler) \<Rightarrow> handler \<Rightarrow> (string \<Rightarrow> handler) \<Rightarrow> string \<Rightarrow> handler" where
  "site methods restrict_prefix push serve_file file_server redirect files r w =
     (case mux_route r of
        RedirectTo p \<Rightarrow> redirect p r w
      | StaticRoute \<Rightarrow> StripPrefix ''/static/'' (restrict_prefix ''.'' file_server) r w
      | IndexRoute \<Rightarrow> methods [(''GET'', Some (index_handler push serve_file files))] r w
      | Index2Route \<Rightarrow>
          methods [(''GET'', Some (serve_file (filepath_Join files ''index2.html'')))] r w)"

text \<open>
  What middleware.RestrictPrefix documents: it refuses the paths that have, once cleaned, a part that
  starts with the prefix, and passes on the others.  Chapter9's own RestrictPrefix does so.
\<close>

definition restrict_law :: "(string \<Rightarrow> handler \<Rightarrow> handler) \<Rightarrow> bool" where
  "restrict_law restrict_prefix \<longleftrightarrow>
     (\<forall>pre h r w. pre \<noteq> [] \<longrightarrow> restrict_prefix pre h r w =
        (if \<exists>c\<in>set (tested_components (url_path r)). prefix pre c
         then (r, http_Error w ''Not Found'' 404) else h r w))"

lemma RestrictPrefix_law: "restrict_law RestrictPrefix"
  unfolding restrict_law_def
proof (intro allI impI)
  fix pre h r w
  assume "pre \<noteq> ([] :: string)"
  from restricted_tested [OF this, of "url_path r"]
  show "RestrictPrefix pre h r w =
      (if \<exists>c\<in>set (tested_components (url_path r)). prefix pre c
       then (r, http_Error w ''Not Found'' 404) else h r w)"
    by (auto simp: RestrictPrefix_def split: option.split)
qed

text \<open>The file that \<open>http.FileServer\<close> serves is named by the absolute path, cleaned.\<close>

definition names_hidden :: "string \<Rightarrow> bool" where
  "names_hidden p \<longleftrightarrow> list_ex (prefix ''.'') (clean_components (CHR ''/'' # p))"

lemma not_tested_not_hidden:
  assumes "\<forall>c\<in>set (tested_components p). \<not> prefix ''.'' c"
  shows "\<not> names_hidden p"
proof -
  have t: "\<forall>c\<in>set (clean_components p). \<not> prefix ''.'' c"
    using assms by (auto simp: tested_components_def split: if_splits)
  then have "''..'' \<notin> set (clean_components p)" by auto
  from clean_components_rooted [OF this] t show ?thesis by (simp add: names_hidden_def list_ex_iff)
qed

lemma tested_hidden:
  assumes "names_hidden p"
  shows "\<exists>c\<in>set (tested_components p). prefix ''.'' c"
  using assms not_tested_not_hidden by blast

text \<open>
  C31: No request reaches a hidden file.  Let two file servers answer alike unless the path of the
  request, made absolute and cleaned as \<open>http.FileServer\<close> does, has a part that starts with a dot.
  Then the site answers alike with one and with the other, for every request: whatever the method,
  CONNECT included, whatever the encoding of the path, and whether the path is clean or not.  A
  request of the static route that names a hidden file is answered 404, and a path that is not clean
  is only redirected, CONNECT apart.  (What a file server shows of a directory is its answer to a
  path without hidden parts.)
\<close>

theorem hidden_files_unreachable:
  assumes "restrict_law restrict_prefix"
    and "\<And>q v. \<not> names_hidden (url_path q) \<Longrightarrow> file_server q v = file_server' q v"
  shows "site methods restrict_prefix push serve_file file_server redirect files r w =
      site methods restrict_prefix push serve_file file_server' redirect files r w \<and>
    (mux_route r = StaticRoute \<longrightarrow> names_hidden (drop 8 (url_path r)) \<longrightarrow>
      (\<exists>msg. site methods restrict_prefix push serve_file file_server redirect files r w =
        (r, http_Error w msg 404))) \<and>
    (Method r \<noteq> ''CONNECT'' \<longrightarrow> mux_clean (EscapedPath r) \<noteq> EscapedPath r \<longrightarrow>
      (\<exists>p. site methods restrict_prefix push serve_file file_server redirect files r w = redirect p r w))"
proof (intro conjI impI)
  have law: "restrict_prefix ''.'' h q v =
      (if \<exists>c\<in>set (tested_components (url_path q)). prefix ''.'' c
       then (q, http_Error v ''Not Found'' 404) else h q v)" for h q v
    using assms(1) by (simp add: restrict_law_def)
  have "restrict_prefix ''.'' file_server q v = restrict_prefix ''.'' file_server' q v" for q v
    unfolding law using assms(2) [of q v] not_tested_not_hidden [of "url_path q"] by auto
  then have "restrict_prefix ''.'' file_server = restrict_prefix ''.'' file_server'" by blast
  then show "site methods restrict_prefix push serve_file file_server redirect files r w =
      site methods restrict_prefix push serve_file file_server' redirect files r w"
    by (simp add: site_def split: route.split)
  show "\<exists>msg. site methods restrict_prefix push serve_file file_server redirect files r w =
      (r, http_Error w msg 404)"
    if "mux_route r = StaticRoute" "names_hidden (drop 8 (url_path r))"
    using that(1) tested_hidden [OF that(2)] by (simp add: site_def StripPrefix_def law numeral_nat) blast
  show "\<exists>p. site methods restrict_prefix push serve_file file_server redirect files r w = redirect p r w"
    if "Method r \<noteq> ''CONNECT''" "mux_clean (EscapedPath r) \<noteq> EscapedPath r"
    using that by (auto simp: site_def mux_route_def Let_def)
qed

text \<open>Two file servers with different hidden files, and a request that hides its dot in an encoding.\<close>

definition dot_server :: "byte \<Rightarrow> handler" where
  "dot_server b r w = (r, fst (Write [if names_hidden (url_path r) then b else 0] w))"

definition encoded_request :: request where
  "encoded_request = (get_request ''/static/.git/config'')\<lparr>RawPath := ''/static/%2egit/config''\<rparr>"

theorem hidden_files_unreachable_witness:
  "(let site_with = (\<lambda>fs. site Methods_ServeHTTP RestrictPrefix (\<lambda>_. None) (\<lambda>f r w. (r, w)) fs
          (\<lambda>p r w. (r, w)) ''./files'' encoded_request new_response) in
    site_with (dot_server 1) = site_with (dot_server 2) \<and>
    (\<exists>msg. site_with (dot_server 1) = (encoded_request, http_Error new_response msg 404))) \<and>
   mux_route encoded_request = StaticRoute \<and>
   mux_route (get_request ''/static/x/../.git/config'') = RedirectTo ''/static/.git/config'' \<and>
   mux_route (get_request ''/static'') = RedirectTo ''/static/''"
proof -
  have r: "mux_route encoded_request = StaticRoute"
    "mux_route (get_request ''/static/x/../.git/config'') = RedirectTo ''/static/.git/config''"
    "mux_route (get_request ''/static'') = RedirectTo ''/static/''"
    by code_simp+
  have n: "names_hidden (drop 8 (url_path encoded_request))" by code_simp
  have "dot_server 1 q v = dot_server 2 q v" if "\<not> names_hidden (url_path q)" for q v
    using that by (simp add: dot_server_def)
  then have same: "\<And>q v. \<not> names_hidden (url_path q) \<Longrightarrow> dot_server 1 q v = dot_server 2 q v" .
  from hidden_files_unreachable [where file_server = "dot_server 1" and file_server' = "dot_server 2",
      OF RestrictPrefix_law same, where methods = Methods_ServeHTTP and push = "\<lambda>_. None" and serve_file = "\<lambda>f r w. (r, w)"
        and redirect = "\<lambda>p r w. (r, w)" and files = "''./files''" and r = encoded_request and w = new_response] r n
  show ?thesis unfolding Let_def by blast
qed

subsection \<open>The service behind Caddy\<close>

text \<open>The page of chapter10/backend.go; it answers every request with it.\<close>

definition quoted :: "string \<Rightarrow> string" where
  "quoted s = CHR 0x22 # s @ [CHR 0x22]"

definition index_page :: string where
  "index_page = join [CHR 0x0A]
     [''<!DOCTYPE html>'',
      ''<html lang='' @ quoted ''en'' @ ''>'',
      ''<head>'',
      ''<meta charset='' @ quoted ''UTF-8'' @ ''>'',
      ''<title>Caddy Backend Test</title>'',
      ''<link href='' @ quoted ''/style.css'' @ '' rel='' @ quoted ''stylesheet'' @ ''>'',
      ''</head>'',
      ''<body>'',
      ''<p><img src='' @ quoted ''/hiking.svg'' @ '' alt='' @ quoted ''hiking gopher'' @ ''></p>'',
      ''</body>'',
      ''</html>'']"

definition backend_handler :: handler where
  "backend_handler r w = (r, fst (Write (to_bytes index_page) w))"

subsection \<open>Shutting down\<close>

text \<open>
  The servers that the two programs configure, without their handlers, and how push.go serves: with
  TLS exactly if both file names are given.
\<close>

record server_config =
  conf_Addr :: string
  IdleTimeout :: duration
  ReadHeaderTimeout :: duration

definition push_config :: "string \<Rightarrow> server_config" where
  "push_config addr = \<lparr>conf_Addr = addr, IdleTimeout = 60 * second, ReadHeaderTimeout = 30 * second\<rparr>"

definition backend_config :: "string \<Rightarrow> server_config" where
  "backend_config addr = \<lparr>conf_Addr = addr, IdleTimeout = 60 * second, ReadHeaderTimeout = 30 * second\<rparr>"

datatype listen_call = PlainHTTP | WithTLS string string

definition push_listen :: "string \<Rightarrow> string \<Rightarrow> listen_call" where
  "push_listen cert pkey = (if cert \<noteq> [] \<and> pkey \<noteq> [] then WithTLS cert pkey else PlainHTTP)"

text \<open>
  What happens to a running server: a signal arrives (only \<open>os.Interrupt\<close> is subscribed to),
  \<open>Shutdown\<close> has waited for the open connections and returns, or listening fails.
\<close>

datatype run_event = Signal bool | ShutdownReturns "go_error option" | ListenFails go_error

record run_state =
  listen_result :: "go_error option option"
  shutting :: bool
  done_closed :: bool

definition run_start :: run_state where
  "run_start = \<lparr>listen_result = None, shutting = False, done_closed = False\<rparr>"

text \<open>
  \<open>ListenAndServe\<close> returns \<open>ErrServerClosed\<close>, which \<open>run\<close> turns into nil, as soon as \<open>Shutdown\<close> is
  called; the goroutine closes \<open>done\<close> when \<open>Shutdown\<close> has returned.  Whether the server listens with
  TLS (both file names given) makes no difference here.
\<close>

fun run_step :: "run_event \<Rightarrow> run_state \<Rightarrow> run_state" where
  "run_step (Signal interrupt) s =
     (if interrupt \<and> \<not> shutting s
      then s\<lparr>shutting := True, listen_result := (case listen_result s of None \<Rightarrow> Some None | e \<Rightarrow> e)\<rparr>
      else s)"
| "run_step (ShutdownReturns err) s = (if shutting s then s\<lparr>done_closed := True\<rparr> else s)"
| "run_step (ListenFails err) s =
     (if listen_result s = None then s\<lparr>listen_result := Some (Some err)\<rparr> else s)"

text \<open>\<open>run\<close> of push.go waits for \<open>done\<close> after the server has stopped; \<open>run\<close> of backend.go does not.\<close>

definition push_run :: "run_event list \<Rightarrow> go_error option option" where
  "push_run evs =
     (let s = foldl (\<lambda>s e. run_step e s) run_start evs in
      case listen_result s of None \<Rightarrow> None | Some err \<Rightarrow> if done_closed s then Some err else None)"

definition backend_run :: "run_event list \<Rightarrow> go_error option option" where
  "backend_run evs = listen_result (foldl (\<lambda>s e. run_step e s) run_start evs)"

text \<open>
  How \<open>main\<close> ends once \<open>run\<close> has returned: the status, and the last line that it logs.
\<close>

definition main_end :: "(go_error \<Rightarrow> string) \<Rightarrow> string \<Rightarrow> go_error option \<Rightarrow> nat \<times> string" where
  "main_end show_err bye err = (case err of Some e \<Rightarrow> (1, show_err e) | None \<Rightarrow> (0, bye))"

definition push_main :: "(go_error \<Rightarrow> string) \<Rightarrow> run_event list \<Rightarrow> (nat \<times> string) option" where
  "push_main show_err evs = map_option (main_end show_err ''Server gracefully shutdown'') (push_run evs)"

definition backend_main :: "(go_error \<Rightarrow> string) \<Rightarrow> run_event list \<Rightarrow> (nat \<times> string) option" where
  "backend_main show_err evs = map_option (main_end show_err ''Server stopped'') (backend_run evs)"

lemma run_no_interrupt:
  "Signal True \<notin> set evs \<Longrightarrow> \<not> shutting s \<Longrightarrow> \<not> done_closed s \<Longrightarrow>
    \<not> shutting (foldl (\<lambda>s e. run_step e s) s evs) \<and> \<not> done_closed (foldl (\<lambda>s e. run_step e s) s evs)"
proof (induction evs arbitrary: s)
  case Nil
  then show ?case by simp
next
  case (Cons e evs)
  have "\<not> shutting (run_step e s) \<and> \<not> done_closed (run_step e s)" using Cons.prems by (cases e) auto
  then show ?case using Cons by simp
qed

lemma run_result_stays:
  "listen_result s = Some x \<Longrightarrow> listen_result (foldl (\<lambda>s e. run_step e s) s evs) = Some x"
proof (induction evs arbitrary: s)
  case Nil
  then show ?case by simp
next
  case (Cons e evs)
  have "listen_result (run_step e s) = Some x" using Cons.prems by (cases e) (auto split: option.splits)
  then show ?case using Cons by simp
qed

text \<open>The error with which listening fails in these events, if it does.\<close>

fun listen_failure :: "run_event list \<Rightarrow> go_error option" where
  "listen_failure [] = None"
| "listen_failure (ListenFails e # evs) = Some e"
| "listen_failure (ev # evs) = listen_failure evs"

lemma run_before_interrupt:
  assumes "Signal True \<notin> set evs" "\<not> shutting s" "listen_result s = None"
  shows "listen_result (foldl (\<lambda>s e. run_step e s) s evs) = map_option Some (listen_failure evs)"
  using assms
proof (induction evs arbitrary: s)
  case (Cons e evs)
  then show ?case
    using run_result_stays [of "run_step e s" _ evs] by (cases e) auto
qed simp

lemma run_shutting:
  "shutting s \<Longrightarrow> listen_result s = Some x \<Longrightarrow>
    listen_result (foldl (\<lambda>s e. run_step e s) s evs) = Some x \<and>
    (done_closed (foldl (\<lambda>s e. run_step e s) s evs) \<longleftrightarrow> done_closed s \<or> (\<exists>err. ShutdownReturns err \<in> set evs))"
proof (induction evs arbitrary: s)
  case (Cons e evs)
  then show ?case by (cases e) auto
qed simp

text \<open>
  C38: When the two programs return, for every sequence of events.  Without an interrupt \<open>run\<close> of
  push.go never returns, whatever else happens, not even when listening fails.  Once an interrupt has
  arrived it returns if and only if \<open>Shutdown\<close> has finished after it, and then with the error with
  which listening had failed before the interrupt, or nil if it had not.  \<open>run\<close> of backend.go
  returns such an error at once, and nil on an interrupt.
\<close>

theorem run_hides_listen_error:
  assumes "Signal True \<notin> set before"
  shows "push_run before = None \<and>
    push_run (before @ Signal True # after) =
      (if \<exists>err. ShutdownReturns err \<in> set after then Some (listen_failure before) else None) \<and>
    backend_run before = map_option Some (listen_failure before) \<and>
    backend_run (before @ Signal True # after) = Some (listen_failure before)"
proof -
  let ?run = "foldl (\<lambda>s e. run_step e s)"
  let ?s = "?run run_start before" and ?s' = "run_step (Signal True) (?run run_start before)"
  have init: "\<not> shutting run_start" "\<not> done_closed run_start" "listen_result run_start = None"
    by (simp_all add: run_start_def)
  have n: "\<not> shutting ?s" "\<not> done_closed ?s" using run_no_interrupt [OF assms init(1,2)] by auto
  have r: "listen_result ?s = map_option Some (listen_failure before)"
    using run_before_interrupt [OF assms init(1,3)] .
  have "shutting ?s'" "listen_result ?s' = Some (listen_failure before)" "\<not> done_closed ?s'"
    using n r by (auto split: option.splits)
  note after = run_shutting [OF this(1,2), of after] this(3)
  show ?thesis
    using n r after by (auto simp: push_run_def backend_run_def Let_def split: option.split)
qed

theorem run_hides_listen_error_witness:
  "push_run [ListenFails (ErrText ''address already in use''), Signal False] = None \<and>
   push_run [ListenFails (ErrText ''address already in use''), Signal False, Signal True, ShutdownReturns None] =
     Some (Some (ErrText ''address already in use'')) \<and>
   push_run [Signal True, ListenFails EOF, ShutdownReturns None] = Some None \<and>
   backend_run [ListenFails (ErrText ''address already in use'')] = Some (Some (ErrText ''address already in use''))"
  using run_hides_listen_error [of "[ListenFails (ErrText ''address already in use''), Signal False]" "[ShutdownReturns None]"]
    run_hides_listen_error [of "[]" "[ListenFails EOF, ShutdownReturns None]"]
    run_hides_listen_error [of "[ListenFails (ErrText ''address already in use'')]"]
  by simp

end
