(* ===== verification/Cert.thy ===== *)
theory Cert
  imports GoStrings
begin

text \<open>
  Chapter11/cert.go: the program that writes a self-signed certificate and its key, and \<open>caCertPool\<close>.
  Cryptography, PEM and the file system are the fields of an environment: the outcome of each call in
  the order in which \<open>main\<close> makes them.  A file that was opened appears in the result with what was
  written to it.
\<close>

record 'ip certificate =
  SerialNumber :: nat
  Organization :: "string list"
  NotBefore :: duration
  NotAfter :: duration
  KeyUsage :: "string list"
  ExtKeyUsage :: "string list"
  BasicConstraintsValid :: bool
  IsCA :: bool
  IPAddresses :: "'ip list"
  DNSNames :: "string list"

definition hour :: duration where
  "hour = 3600 * second"

definition template_base :: "nat \<Rightarrow> string \<Rightarrow> duration \<Rightarrow> 'ip certificate" where
  "template_base serial org notBefore =
     \<lparr>SerialNumber = serial, Organization = [org], NotBefore = notBefore,
      NotAfter = notBefore + 10 * 356 * 24 * hour,
      KeyUsage = [''KeyEncipherment'', ''DigitalSignature'', ''CertSign''],
      ExtKeyUsage = [''ServerAuth'', ''ClientAuth''],
      BasicConstraintsValid = True, IsCA = True, IPAddresses = [], DNSNames = []\<rparr>"

text \<open>The loop over the hosts; \<open>parse_ip\<close> is \<open>net.ParseIP\<close>, \<open>None\<close> for nil.\<close>

definition add_host :: "(string \<Rightarrow> 'ip option) \<Rightarrow> 'ip certificate \<Rightarrow> string \<Rightarrow> 'ip certificate" where
  "add_host parse_ip t h =
     (case parse_ip h of
        Some ip \<Rightarrow> t\<lparr>IPAddresses := IPAddresses t @ [ip]\<rparr>
      | None \<Rightarrow> t\<lparr>DNSNames := DNSNames t @ [h]\<rparr>)"

definition cert_template :: "(string \<Rightarrow> 'ip option) \<Rightarrow> nat \<Rightarrow> string \<Rightarrow> string \<Rightarrow> duration \<Rightarrow> 'ip certificate" where
  "cert_template parse_ip serial host org notBefore =
     foldl (add_host parse_ip) (template_base serial org notBefore) (split_on CHR '','' host)"

record ('ip, 'k) cert_env =
  rand_serial :: "nat result"
  parse_ip :: "string \<Rightarrow> 'ip option"
  now :: duration
  gen_key :: "'k result"
  create_certificate :: "'ip certificate \<Rightarrow> 'k \<Rightarrow> byte list result"
  open_file :: "string \<Rightarrow> go_error option"
  pem_encode :: "string \<Rightarrow> byte list \<Rightarrow> byte list"
  encode_err :: "string \<Rightarrow> go_error option"
  close_file_err :: "string \<Rightarrow> go_error option"
  marshal_key :: "'k \<Rightarrow> byte list result"

text \<open>\<open>main\<close>: the files it has opened, with their contents, and the error given to \<open>log.Fatal\<close>.\<close>

definition write_pem ::
  "('ip, 'k) cert_env \<Rightarrow> string \<Rightarrow> string \<Rightarrow> byte list \<Rightarrow> (string \<times> byte list) \<times> go_error option" where
  "write_pem env name typ bytes =
     (case encode_err env name of
        Some err \<Rightarrow> ((name, []), Some err)
      | None \<Rightarrow> ((name, pem_encode env typ bytes), close_file_err env name))"

definition cert_main ::
  "('ip, 'k) cert_env \<Rightarrow> string \<Rightarrow> string \<Rightarrow> string \<Rightarrow> string \<Rightarrow> (string \<times> byte list) list \<times> go_error option" where
  "cert_main env host certFn keyFn org =
     (case rand_serial env of
        Inl err \<Rightarrow> ([], Some err)
      | Inr serial \<Rightarrow>
          let template = cert_template (parse_ip env) serial host org (now env) in
          (case gen_key env of
             Inl err \<Rightarrow> ([], Some err)
           | Inr priv \<Rightarrow>
               (case create_certificate env template priv of
                  Inl err \<Rightarrow> ([], Some err)
                | Inr der \<Rightarrow>
                    (case open_file env certFn of
                       Some err \<Rightarrow> ([], Some err)
                     | None \<Rightarrow>
                         (case write_pem env certFn ''CERTIFICATE'' der of
                            (f, Some err) \<Rightarrow> ([f], Some err)
                          | (f, None) \<Rightarrow>
                              (case open_file env keyFn of
                                 Some err \<Rightarrow> ([f], Some err)
                               | None \<Rightarrow>
                                   (case marshal_key env priv of
                                      Inl err \<Rightarrow> ([f, (keyFn, [])], Some err)
                                    | Inr privKey \<Rightarrow>
                                        (case write_pem env keyFn ''EC PRIVATE KEY'' privKey of
                                           (g, e) \<Rightarrow> ([f, g], e))))))))) "

text \<open>\<open>append_certs\<close> is \<open>AppendCertsFromPEM\<close> on a new pool: the pool, unless no certificate was found.\<close>

definition caCertPool :: "(string \<Rightarrow> byte list result) \<Rightarrow> (byte list \<Rightarrow> 'pool option) \<Rightarrow> string \<Rightarrow> 'pool result" where
  "caCertPool read_file append_certs fn =
     (case read_file fn of
        Inl err \<Rightarrow> Inl err
      | Inr caCert \<Rightarrow>
          (case append_certs caCert of
             None \<Rightarrow> Inl (ErrText ''failed to add certificate to pool'')
           | Some pool \<Rightarrow> Inr pool))"

lemma add_hosts:
  "foldl (add_host p) t hs =
     t\<lparr>IPAddresses := IPAddresses t @ map (\<lambda>h. the (p h)) (filter (\<lambda>h. p h \<noteq> None) hs),
       DNSNames := DNSNames t @ filter (\<lambda>h. p h = None) hs\<rparr>"
  by (induction hs arbitrary: t) (auto simp: add_host_def split: option.splits)

text \<open>
  If the program ends without an error it has written two files: the encoded certificate, made
  from a template in which every comma-separated host stands exactly once, in order, as an address if
  it parses as one and as a DNS name otherwise, and then the key the certificate was made with.  The
  certificate is valid for 3560 days, three months short of ten years.
\<close>

theorem cert_main_writes:
  assumes "cert_main env host certFn keyFn org = (files, None)"
  shows "\<exists>t k der key. create_certificate env t k = Inr der \<and> gen_key env = Inr k \<and> marshal_key env k = Inr key \<and>
    files = [(certFn, pem_encode env ''CERTIFICATE'' der), (keyFn, pem_encode env ''EC PRIVATE KEY'' key)] \<and>
    map Some (IPAddresses t) = map (parse_ip env) (filter (\<lambda>h. parse_ip env h \<noteq> None) (split_on CHR '','' host)) \<and>
    DNSNames t = filter (\<lambda>h. parse_ip env h = None) (split_on CHR '','' host) \<and>
    rand_serial env = Inr (SerialNumber t) \<and> Organization t = [org] \<and>
    NotAfter t - NotBefore t = 3560 * 24 * hour \<and> 3560 * 24 * hour < 3650 * 24 * hour"
proof -
  obtain serial k der key where r: "rand_serial env = Inr serial" "gen_key env = Inr k"
    "create_certificate env (cert_template (parse_ip env) serial host org (now env)) k = Inr der"
    "marshal_key env k = Inr key"
    "files = [(certFn, pem_encode env ''CERTIFICATE'' der), (keyFn, pem_encode env ''EC PRIVATE KEY'' key)]"
    using assms
    by (auto simp: cert_main_def Let_def write_pem_def split: sum.splits option.splits prod.splits)
  let ?t = "cert_template (parse_ip env) serial host org (now env)"
  have "map Some (IPAddresses ?t) = map (parse_ip env) (filter (\<lambda>h. parse_ip env h \<noteq> None) (split_on CHR '','' host))"
    by (auto simp: cert_template_def add_hosts template_base_def)
  moreover have "DNSNames ?t = filter (\<lambda>h. parse_ip env h = None) (split_on CHR '','' host)"
    "NotAfter ?t - NotBefore ?t = 3560 * 24 * hour" "SerialNumber ?t = serial" "Organization ?t = [org]"
    by (simp_all add: cert_template_def add_hosts template_base_def)
  moreover have "3560 * 24 * hour < 3650 * 24 * hour" by (simp add: hour_def second_def)
  ultimately show ?thesis using r
    by (intro exI [of _ ?t] exI [of _ k] exI [of _ der] exI [of _ key] conjI) simp_all
qed

definition sample_env :: "(nat, nat) cert_env" where
  "sample_env = \<lparr>rand_serial = Inr 5, parse_ip = (\<lambda>h. if h = ''::1'' then Some 1 else None), now = 0,
     gen_key = Inr 3, create_certificate = (\<lambda>t k. Inr (map (\<lambda>i. of_nat i) (IPAddresses t))),
     open_file = (\<lambda>_. None), pem_encode = (\<lambda>t b. b), encode_err = (\<lambda>_. None), close_file_err = (\<lambda>_. None),
     marshal_key = (\<lambda>k. Inr [of_nat k])\<rparr>"

theorem cert_main_writes_witness:
  "cert_main sample_env ''localhost,::1'' ''c'' ''k'' ''o'' = ([(''c'', [1]), (''k'', [3])], None) \<and>
   (\<exists>t k. create_certificate sample_env t k = Inr [1] \<and> DNSNames t = [''localhost''] \<and> SerialNumber t = 5)"
proof -
  have m: "cert_main sample_env ''localhost,::1'' ''c'' ''k'' ''o'' = ([(''c'', [1]), (''k'', [3])], None)"
    by code_simp
  have "filter (\<lambda>h. parse_ip sample_env h = None) (split_on CHR '','' ''localhost,::1'') = [''localhost'']"
    by (simp add: sample_env_def)
  moreover have "pem_encode sample_env t b = b" "rand_serial sample_env = Inr 5" for t b by (simp_all add: sample_env_def)
  ultimately have "\<exists>t k. create_certificate sample_env t k = Inr [1] \<and> DNSNames t = [''localhost''] \<and> SerialNumber t = 5"
    using cert_main_writes [OF m] by auto
  with m show ?thesis by blast
qed

end
