(* ===== verification/Deploy.thy ===== *)
theory Deploy
  imports Rosie Cert Echo
begin

text \<open>
  The two programs of chapter 12's service: chapter12/server/server.go (\<open>main\<close>) and the start of
  \<open>main\<close> in chapter12/client/client.go.  crypto/tls, crypto/x509 and the gRPC library are parameters:
  loading a key pair, listening, serving, parsing certificates and dialling.  What both programs put
  together themselves, their TLS configurations and the registered service, is part of the result.
\<close>

record ('cert, 'pool) h2_config = "'cert tls_config" +
  RootCAs :: "'pool option"
  NextProtos :: "string list"

text \<open>
  \<open>server_main\<close>: what is being served (the address, the configuration of its TLS listener, the
  registered methods and the state of the new Rosie), and the text given to \<open>log.Fatal\<close>, with which
  it always ends.
\<close>

record 'cert serving =
  served_addr :: string
  served_config :: "('cert, unit) h2_config"
  served_methods :: "(string \<times> (message \<Rightarrow> sys \<Rightarrow> sys \<times> message call)) list"
  served_state :: sys

definition server_main ::
  "(go_error \<Rightarrow> string) \<Rightarrow> (string \<Rightarrow> string \<Rightarrow> 'cert result) \<Rightarrow> (string \<Rightarrow> unit result) \<Rightarrow>
   ('cert serving \<Rightarrow> go_error) \<Rightarrow> string \<Rightarrow> string \<Rightarrow> string \<Rightarrow> 'cert serving option \<times> string" where
  "server_main show_err load_pair listen serve addr certFn keyFn =
     (let rosie = fresh_sys in
      case load_pair certFn keyFn of
        Inl err \<Rightarrow> (None, ''failed to load certificate: '' @ show_err err)
      | Inr cert \<Rightarrow>
          (case listen addr of
             Inl err \<Rightarrow> (None, ''failed to listen: '' @ show_err err)
           | Inr _ \<Rightarrow>
               let sv = \<lparr>served_addr = addr,
                          served_config =
                            \<lparr>Certificates = [cert], GetCertificate = False, only_P256 = True,
                             MinVersion = VersionTLS12, PreferServerCipherSuites = True,
                             RootCAs = None, NextProtos = [''h2'']\<rparr>,
                          served_methods = RobotMaid_Methods, served_state = rosie\<rparr> in
               (Some sv, show_err (serve sv))))"

text \<open>\<open>client_main\<close>: the output and the error given to \<open>log.Fatal\<close>; the state is the server's.\<close>

definition client_config :: "'pool \<Rightarrow> ('cert, 'pool) h2_config" where
  "client_config certPool =
     \<lparr>Certificates = [], GetCertificate = False, only_P256 = True, MinVersion = VersionTLS12,
      PreferServerCipherSuites = True, RootCAs = Some certPool, NextProtos = [''h2'']\<rparr>"

definition client_main ::
  "(string \<Rightarrow> byte list result) \<Rightarrow> (byte list \<Rightarrow> 'pool option) \<Rightarrow>
   (string \<Rightarrow> (unit, 'pool) h2_config \<Rightarrow> 's conn result) \<Rightarrow> string \<Rightarrow> string \<Rightarrow> string list \<Rightarrow> 's \<Rightarrow>
   's \<times> string \<times> go_error option" where
  "client_main read_file append_certs dial addr caCertFn args s =
     (case read_file caCertFn of
        Inl err \<Rightarrow> (s, [], Some err)
      | Inr caCert \<Rightarrow>
          (case append_certs caCert of
             None \<Rightarrow> (s, [], Some (ErrText ''failed to add certificate to pool''))
           | Some certPool \<Rightarrow>
               (case dial addr (client_config certPool) of
                  Inl err \<Rightarrow> (s, [], Some err)
                | Inr cc \<Rightarrow> rpc_main cc args s)))"

subsection \<open>A session\<close>

text \<open>The client program run several times against the same server.\<close>

definition client_session ::
  "(string list \<Rightarrow> 's \<Rightarrow> 's \<times> string \<times> go_error option) \<Rightarrow> string list list \<Rightarrow> 's \<Rightarrow> 's" where
  "client_session run argss s = foldl (\<lambda>s args. fst (run args s)) s argss"

definition commands_of :: "string list list \<Rightarrow> command list" where
  "commands_of argss = List.map_filter command_of argss"

lemma client_main_connected:
  assumes "read_file fn = Inr pem" "append_certs pem = Some pool" "dial addr (client_config pool) = Inr cc"
  shows "client_main read_file append_certs dial addr fn args s = rpc_main cc args s"
  using assms by (simp add: client_main_def)

lemma rpc_session:
  assumes "rpc_law cc" "sys_inv s" "\<forall>c\<in>set (commands_of argss). text_ok c"
  shows "sys_inv (client_session (rpc_main cc) argss s) \<and>
    sys_chores (client_session (rpc_main cc) argss s) = spec_run rpc_num (commands_of argss) (sys_chores s)"
  using assms(2,3)
proof (induction argss arbitrary: s)
  case Nil
  then show ?case by (simp add: client_session_def commands_of_def map_filter_simps)
next
  case (Cons args argss)
  have "text_ok c" if "command_of args = Some c" for c
    using Cons.prems(2) that by (simp add: commands_of_def map_filter_simps)
  note run = rpc_main_spec [OF assms(1) Cons.prems(1) this]
  have "sys_chores (fst (rpc_main cc args s)) =
      (case command_of args of None \<Rightarrow> sys_chores s | Some c \<Rightarrow> spec_step rpc_num c (sys_chores s))"
    using run by simp
  moreover have "\<forall>c\<in>set (commands_of argss). text_ok c"
    using Cons.prems(2) by (auto simp: commands_of_def map_filter_simps split: option.splits)
  ultimately show ?case
    using Cons.IH [of "fst (rpc_main cc args s)"] run
    by (auto simp: client_session_def commands_of_def map_filter_simps split: option.splits)
qed

text \<open>
  Against a server program that came up, every run of the client program whose CA file can be
  read and whose dial succeeds acts on the one list of the server: after any number of runs the list
  is what the specification computes from the empty list, and the next run without a command prints
  exactly it.  Both programs insist on TLS 1.2 or later, the curve P-256 and HTTP/2.
\<close>

theorem programs_share_list:
  assumes "server_main show_err load_pair listen serve addr certFn keyFn = (Some sv, msg)"
    and "read_file fn = Inr pem" and "append_certs pem = Some pool"
    and "dial addr (client_config pool) = Inr cc" and "rpc_law cc"
    and "\<forall>c\<in>set (commands_of argss). text_ok c"
  shows "let s = client_session (client_main read_file append_certs dial addr fn) argss (served_state sv);
      chores = spec_run rpc_num (commands_of argss) [] in
    sys_chores s = chores \<and>
    snd (client_main read_file append_certs dial addr fn [] s) =
      (list_text ''You have nothing to do!'' chores, None) \<and>
    MinVersion (served_config sv) = VersionTLS12 \<and> only_P256 (served_config sv) \<and>
    NextProtos (served_config sv) = NextProtos (client_config pool) \<and>
    only_P256 (client_config pool) \<and> MinVersion (client_config pool) = VersionTLS12"
proof -
  have sv: "served_state sv = fresh_sys" "MinVersion (served_config sv) = VersionTLS12"
    "only_P256 (served_config sv)" "NextProtos (served_config sv) = [''h2'']"
    using assms(1) by (auto simp: server_main_def Let_def split: sum.splits)
  have run: "client_main read_file append_certs dial addr fn = rpc_main cc"
    using assms(2-4) by (intro ext) (simp add: client_main_def)
  have inv: "sys_inv fresh_sys" "sys_chores fresh_sys = []"
    using fresh_rpc_inv by (simp_all add: rpc_inv_def rpc_chores_def)
  note session = rpc_session [OF assms(5) inv(1) assms(6), unfolded inv(2)]
  have "command_of [] = None" by code_simp
  then show ?thesis
    using session rpc_main_spec [OF assms(5) conjunct1 [OF session], of "[]"]
    by (simp add: Let_def run sv client_config_def)
qed

theorem programs_share_list_witness:
  "\<exists>sv msg. server_main error_text_id (\<lambda>c k. Inr ()) (\<lambda>a. Inr ()) (\<lambda>sv. EOF) ''h:1'' ''c'' ''k'' = (Some sv, msg) \<and>
    snd (client_main (\<lambda>f. Inr [1]) (\<lambda>pem. Some ()) (\<lambda>a cfg. Inr direct_conn) ''h:1'' ''ca'' []
      (client_session (client_main (\<lambda>f. Inr [1]) (\<lambda>pem. Some ()) (\<lambda>a cfg. Inr direct_conn) ''h:1'' ''ca'')
        [[''add'', ''a,b''], [''complete'', ''2'']] (served_state sv))) =
      (list_text ''You have nothing to do!''
         [\<lparr>Complete = False, Description = ''a''\<rparr>, \<lparr>Complete = True, Description = ''b''\<rparr>], None)"
proof -
  obtain sv msg where s: "server_main error_text_id (\<lambda>c k. Inr ()) (\<lambda>a. Inr ()) (\<lambda>sv. EOF) ''h:1'' ''c'' ''k'' =
      (Some sv, msg)"
    by (simp add: server_main_def Let_def)
  let ?argss = "[[''add'', ''a,b''], [''complete'', ''2'']]"
  have c: "commands_of ?argss = [AddCmd ''a,b'', CompleteCmd ''2'']" by code_simp
  then have ok: "\<forall>c\<in>set (commands_of ?argss). text_ok c" using sample_commands(5) by simp
  have "spec_run rpc_num (commands_of ?argss) [] =
      [\<lparr>Complete = False, Description = ''a''\<rparr>, \<lparr>Complete = True, Description = ''b''\<rparr>]"
    by (simp add: c sample_commands rpc_num_def mark_def)
  then show ?thesis
    using s programs_share_list [where read_file = "\<lambda>f. Inr [1]" and append_certs = "\<lambda>pem. Some ()"
        and dial = "\<lambda>a cfg. Inr direct_conn" and fn = "''ca''" and addr = "''h:1''", OF s refl refl refl
          direct_conn_law ok]
    by (auto simp: Let_def)
qed

end
