(* ===== verification/GoFlag.thy ===== *)
theory GoFlag
  imports GoStrings
begin

text \<open>
  Package flag, as the programs of the repository use it: flags with a value (none of them is
  Boolean), the parsing of a command line by \<open>flag.Parse\<close>, which ends the program when the line is
  wrong, and the list of flags that \<open>flag.PrintDefaults\<close> prints.  A program's flags set the fields of
  a record of its own, \<open>'c\<close>.
\<close>

subsection \<open>Parsing\<close>

record 'c flag_def =
  fl_name :: string
  fl_type :: string
  fl_usage :: string
  fl_default :: string
  fl_set :: "string \<Rightarrow> 'c \<Rightarrow> 'c result"

text \<open>\<open>flag.String\<close>: any text is a value.  The default is shown in quotes.\<close>

definition flag_String :: "string \<Rightarrow> string \<Rightarrow> string \<Rightarrow> (string \<Rightarrow> 'c \<Rightarrow> 'c) \<Rightarrow> 'c flag_def" where
  "flag_String name value usage upd =
     \<lparr>fl_name = name, fl_type = ''string'', fl_usage = usage,
      fl_default = CHR 0x22 # value @ [CHR 0x22], fl_set = (\<lambda>v c. Inr (upd v c))\<rparr>"

text \<open>
  \<open>flag.Int\<close> and \<open>flag.Duration\<close>: the text is read by \<open>strconv.ParseInt\<close> with base 0 and by
  \<open>time.ParseDuration\<close>, which are arguments.
\<close>

definition flag_Value ::
  "string \<Rightarrow> (string \<Rightarrow> 'a result) \<Rightarrow> string \<Rightarrow> string \<Rightarrow> string \<Rightarrow> ('a \<Rightarrow> 'c \<Rightarrow> 'c) \<Rightarrow> 'c flag_def" where
  "flag_Value type parse name value usage upd =
     \<lparr>fl_name = name, fl_type = type, fl_usage = usage, fl_default = value,
      fl_set = (\<lambda>v c. case parse v of Inl err \<Rightarrow> Inl err | Inr x \<Rightarrow> Inr (upd x c))\<rparr>"

datatype flag_error =
    FlagHelp
  | BadSyntax string
  | NotDefined string
  | NeedsArgument string
  | InvalidValue string string go_error

text \<open>Every error ends the program after the usage text, with status 2, but 0 when help was asked for.\<close>

definition flag_status :: "flag_error \<Rightarrow> nat" where
  "flag_status e = (if e = FlagHelp then 0 else 2)"

fun cut_value :: "string \<Rightarrow> string \<times> string option" where
  "cut_value [] = ([], None)"
| "cut_value (c # cs) =
     (c # takeWhile (\<lambda>d. d \<noteq> CHR ''='') cs,
      case dropWhile (\<lambda>d. d \<noteq> CHR ''='') cs of [] \<Rightarrow> None | _ # v \<Rightarrow> Some v)"

definition flag_like :: "string \<Rightarrow> bool" where
  "flag_like s \<longleftrightarrow> 2 \<le> length s \<and> hd s = CHR ''-''"

definition set_flag :: "'c flag_def \<Rightarrow> string \<Rightarrow> 'c \<Rightarrow> flag_error + 'c" where
  "set_flag f v c = map_sum (InvalidValue v (fl_name f)) id (fl_set f v c)"

text \<open>
  The result is the record with the values set and the remaining arguments; parsing stops at the
  first argument that is not a flag, or after \<open>--\<close>.
\<close>

function parse_flags :: "'c flag_def list \<Rightarrow> 'c \<Rightarrow> string list \<Rightarrow> flag_error + ('c \<times> string list)" where
  "parse_flags fs c args =
     (case args of
        [] \<Rightarrow> Inr (c, [])
      | s # rest \<Rightarrow>
          if \<not> flag_like s then Inr (c, args)
          else if s = ''--'' then Inr (c, rest)
          else
            (let name = (if s ! 1 = CHR ''-'' then drop 2 s else drop 1 s) in
             if name = [] \<or> hd name = CHR ''-'' \<or> hd name = CHR ''='' then Inl (BadSyntax s)
             else
               (case cut_value name of
                  (name, value) \<Rightarrow>
                    (case find (\<lambda>f. fl_name f = name) fs of
                       None \<Rightarrow> Inl (if name = ''help'' \<or> name = ''h'' then FlagHelp else NotDefined name)
                     | Some f \<Rightarrow>
                         (case value of
                            Some v \<Rightarrow>
                              (case set_flag f v c of Inl err \<Rightarrow> Inl err | Inr c \<Rightarrow> parse_flags fs c rest)
                          | None \<Rightarrow>
                              (case rest of
                                 [] \<Rightarrow> Inl (NeedsArgument name)
                               | v # rest \<Rightarrow>
                                   (case set_flag f v c of
                                      Inl err \<Rightarrow> Inl err
                                    | Inr c \<Rightarrow> parse_flags fs c rest)))))))"
  by pat_completeness auto
termination
  by (relation "measure (\<lambda>(fs, c, args). length args)") auto

declare parse_flags.simps [simp del]

lemma parse_flags_args:
  "args = [] \<or> \<not> flag_like (hd args) \<Longrightarrow> parse_flags fs c args = Inr (c, args)"
  by (cases args) (simp_all add: parse_flags.simps)

lemma parse_flags_terminator [simp]: "parse_flags fs c (''--'' # args) = Inr (c, args)"
  by (simp add: parse_flags.simps flag_like_def)

subsection \<open>What a command line says\<close>

text \<open>
  The ways to write a flag and its value: one dash or two, the value after an equals sign or as the
  next argument.
\<close>

datatype flag_form = Form bool bool

fun flag_words :: "flag_form \<Rightarrow> string \<times> string \<Rightarrow> string list" where
  "flag_words (Form two joined) (n, v) =
     (let s = (if two then ''--'' else ''-'') @ n in if joined then [s @ ''='' @ v] else [s, v])"

definition flag_name_ok :: "string \<Rightarrow> bool" where
  "flag_name_ok n \<longleftrightarrow> n \<noteq> [] \<and> hd n \<noteq> CHR ''-'' \<and> CHR ''='' \<notin> set n"

lemma cut_value_name:
  assumes "flag_name_ok n"
  shows "cut_value n = (n, None)" and "cut_value (n @ CHR ''='' # v) = (n, Some v)"
proof -
  obtain c cs where n: "n = c # cs" and cs: "CHR ''='' \<notin> set cs"
    using assms by (cases n) (auto simp: flag_name_ok_def)
  have "\<forall>d\<in>set cs. d \<noteq> CHR ''=''" using cs by blast
  then have "takeWhile (\<lambda>d. d \<noteq> CHR ''='') cs = cs" and [simp]: "dropWhile (\<lambda>d. d \<noteq> CHR ''='') cs = []"
    and "takeWhile (\<lambda>d. d \<noteq> CHR ''='') (cs @ CHR ''='' # v) = cs"
    "dropWhile (\<lambda>d. d \<noteq> CHR ''='') (cs @ CHR ''='' # v) = CHR ''='' # v"
    by (simp_all add: takeWhile_append2 dropWhile_append2 dropWhile_eq_Nil_conv)
  then show "cut_value n = (n, None)" "cut_value (n @ CHR ''='' # v) = (n, Some v)"
    by (simp_all add: n dropWhile_eq_Nil_conv)
qed

lemma parse_flags_step:
  assumes "flag_name_ok n" and "find (\<lambda>f. fl_name f = n) fs = Some f"
  shows "parse_flags fs c (flag_words form (n, v) @ args) =
    (case set_flag f v c of Inl err \<Rightarrow> Inl err | Inr c \<Rightarrow> parse_flags fs c args)"
proof -
  obtain two joined where form: "form = Form two joined" by (cases form)
  obtain d ds where n: "n = d # ds" "d \<noteq> CHR ''-''" "d \<noteq> CHR ''=''"
    using assms(1) by (cases n) (auto simp: flag_name_ok_def)
  note cut = cut_value_name [OF assms(1)]
  show ?thesis
    using assms(2) cut n unfolding form
    by (cases two; cases joined; subst parse_flags.simps) (simp_all add: flag_like_def del: cut_value.simps)
qed

lemma parse_unknown:
  assumes "flag_name_ok n" and "n \<notin> fl_name ` set fs" and "n \<notin> {''help'', ''h''}"
  shows "parse_flags fs c ((CHR ''-'' # n) # args) = Inl (NotDefined n)"
proof -
  obtain d ds where n: "n = d # ds" "d \<noteq> CHR ''-''" "d \<noteq> CHR ''=''"
    using assms(1) by (cases n) (auto simp: flag_name_ok_def)
  have "find (\<lambda>f. fl_name f = n) fs = None" using assms(2) by (auto simp: find_None_iff)
  then show ?thesis
    using cut_value_name(1) [OF assms(1)] assms(3) n
    by (subst parse_flags.simps) (simp add: flag_like_def del: cut_value.simps)
qed

text \<open>Every flag that is set is set to its value, in order, and what follows are the arguments.\<close>

fun set_flags :: "'c flag_def list \<Rightarrow> (string \<times> string) list \<Rightarrow> 'c \<Rightarrow> flag_error + 'c" where
  "set_flags fs [] c = Inr c"
| "set_flags fs ((n, v) # settings) c =
     (case find (\<lambda>f. fl_name f = n) fs of
        None \<Rightarrow> Inl (NotDefined n)
      | Some f \<Rightarrow> (case set_flag f v c of Inl err \<Rightarrow> Inl err | Inr c \<Rightarrow> set_flags fs settings c))"

definition command_line :: "(flag_form \<times> string \<times> string) list \<Rightarrow> string list \<Rightarrow> string list" where
  "command_line settings args = concat (map (\<lambda>(form, s). flag_words form s) settings) @ args"

lemma parse_command_line:
  assumes "\<forall>(form, n, v)\<in>set settings. flag_name_ok n \<and> n \<in> fl_name ` set fs"
    and "args = [] \<or> \<not> flag_like (hd args)"
  shows "parse_flags fs c (command_line settings args) = map_sum id (\<lambda>c. (c, args)) (set_flags fs (map snd settings) c)"
  using assms(1)
proof (induction settings arbitrary: c)
  case Nil
  then show ?case using assms(2) by (simp add: command_line_def parse_flags_args)
next
  case (Cons s settings)
  obtain form n v where s: "s = (form, n, v)" by (metis prod_cases3)
  have "find (\<lambda>f. fl_name f = n) fs \<noteq> None" using Cons.prems by (auto simp: s find_None_iff)
  then obtain f where f: "find (\<lambda>f. fl_name f = n) fs = Some f" by auto
  have "command_line (s # settings) args = flag_words form (n, v) @ command_line settings args"
    by (simp add: command_line_def s)
  then show ?case
    using Cons parse_flags_step [OF _ f, of c form v] f by (auto simp: s split: sum.split)
qed

subsection \<open>The list of flags\<close>

fun text_less :: "string \<Rightarrow> string \<Rightarrow> bool" where
  "text_less _ [] \<longleftrightarrow> False"
| "text_less [] (_ # _) \<longleftrightarrow> True"
| "text_less (a # s) (b # t) \<longleftrightarrow> (of_char a :: nat) < of_char b \<or> a = b \<and> text_less s t"

fun insert_flag :: "'c flag_def \<Rightarrow> 'c flag_def list \<Rightarrow> 'c flag_def list" where
  "insert_flag f [] = [f]"
| "insert_flag f (g # gs) = (if text_less (fl_name g) (fl_name f) then g # insert_flag f gs else f # g # gs)"

text \<open>
  \<open>PrintDefaults\<close>: by name, the type after the name, the usage on a line of its own; all defaults
  here are different from the zero value, so each is shown.  A flag of one letter keeps the type too,
  since only flags without a type stay on one line.
\<close>

definition flag_line :: "'c flag_def \<Rightarrow> string" where
  "flag_line f =
     ''  -'' @ fl_name f @ '' '' @ fl_type f @ [CHR 0x0A] @ ''    '' @ [CHR 0x09] @ fl_usage f @
     '' (default '' @ fl_default f @ '')'' @ [CHR 0x0A]"

definition PrintDefaults :: "'c flag_def list \<Rightarrow> string" where
  "PrintDefaults fs = concat (map flag_line (foldr insert_flag fs []))"

definition default_Usage :: "string \<Rightarrow> 'c flag_def list \<Rightarrow> string" where
  "default_Usage prog fs = ''Usage of '' @ prog @ '':'' @ [CHR 0x0A] @ PrintDefaults fs"

end
