(* ===== verification/Programs.thy ===== *)
theory Programs
  imports GoFlag Deploy Port Push TftpServer Metrics
begin

text \<open>
  The programs from their command lines: the flags each declares, with names, defaults and texts, and
  \<open>main\<close> applied to what \<open>flag.Parse\<close> has read.  \<open>argv\<close> are the arguments after the program's name
  \<open>prog\<close>.
\<close>

text \<open>
  A wrong command line ends a program before it does anything, with the status of package flag and
  after printing the usage.
\<close>

datatype 'a program_run = BadCommandLine flag_error string | Ran 'a

definition run_program ::
  "'c flag_def list \<Rightarrow> 'c \<Rightarrow> string \<Rightarrow> ('c \<Rightarrow> string list \<Rightarrow> 'a) \<Rightarrow> string list \<Rightarrow> 'a program_run" where
  "run_program fs defaults usage run argv =
     (case parse_flags fs defaults argv of
        Inl err \<Rightarrow> BadCommandLine err usage
      | Inr (c, args) \<Rightarrow> Ran (run c args))"

text \<open>\<open>filepath.Base\<close> on Unix.\<close>

definition filepath_Base :: "string \<Rightarrow> string" where
  "filepath_Base p =
     (let q = rev (dropWhile (\<lambda>c. c = CHR ''/'') (rev p)) in
      if p = [] then ''.'' else if q = [] then ''/'' else last (split_on CHR ''/'' q))"

subsection \<open>The chore programs\<close>

definition chores_usage :: "string \<Rightarrow> 'c flag_def list \<Rightarrow> string" where
  "chores_usage prog fs =
     ''Usage: '' @ filepath_Base prog @ '' [flags] [add chore, ...|complete #]'' @ [CHR 0x0A, CHR 0x09, CHR 0x09] @
     ''add add comma-separated chores'' @ [CHR 0x0A, CHR 0x09, CHR 0x09] @
     ''complete complete designated chore'' @ [CHR 0x0A, CHR 0x09, CHR 0x09] @
     ''Flags:'' @ [CHR 0x0A, CHR 0x09, CHR 0x09] @ PrintDefaults fs"

record homework_vars =
  var_dataFile :: string

definition homework_flags :: "homework_vars flag_def list" where
  "homework_flags = [flag_String ''file'' ''housework.db'' ''data file'' (\<lambda>v c. c\<lparr>var_dataFile := v\<rparr>)]"

definition homework_defaults :: homework_vars where
  "homework_defaults = \<lparr>var_dataFile = ''housework.db''\<rparr>"

text \<open>The program works on one file of those there are.\<close>

definition homework_program ::
  "storage \<Rightarrow> string \<Rightarrow> string list \<Rightarrow> (string \<Rightarrow> world) \<Rightarrow> ((string \<Rightarrow> world) \<times> go_error option) program_run" where
  "homework_program st prog argv files =
     run_program homework_flags homework_defaults (chores_usage prog homework_flags)
       (\<lambda>c args. case main st args (files (var_dataFile c)) of (w, err) \<Rightarrow> (files(var_dataFile c := w), err)) argv"

record service_vars =
  var_addr :: string
  var_certFn :: string
  var_keyFn :: string

definition server_flags :: "service_vars flag_def list" where
  "server_flags =
     [flag_String ''address'' ''localhost:34443'' ''listen address'' (\<lambda>v c. c\<lparr>var_addr := v\<rparr>),
      flag_String ''cert'' ''serverCert.pem'' ''certificate file'' (\<lambda>v c. c\<lparr>var_certFn := v\<rparr>),
      flag_String ''key'' ''serverKey.pem'' ''private key file'' (\<lambda>v c. c\<lparr>var_keyFn := v\<rparr>)]"

definition server_defaults :: service_vars where
  "server_defaults = \<lparr>var_addr = ''localhost:34443'', var_certFn = ''serverCert.pem'', var_keyFn = ''serverKey.pem''\<rparr>"

definition server_program ::
  "(go_error \<Rightarrow> string) \<Rightarrow> (string \<Rightarrow> string \<Rightarrow> 'cert result) \<Rightarrow> (string \<Rightarrow> unit result) \<Rightarrow>
   ('cert serving \<Rightarrow> go_error) \<Rightarrow> string \<Rightarrow> string list \<Rightarrow> ('cert serving option \<times> string) program_run" where
  "server_program show_err load_pair listen serve prog argv =
     run_program server_flags server_defaults (default_Usage prog server_flags)
       (\<lambda>c args. server_main show_err load_pair listen serve (var_addr c) (var_certFn c) (var_keyFn c)) argv"

record client_vars =
  var_address :: string
  var_caCertFn :: string

definition client_flags :: "client_vars flag_def list" where
  "client_flags =
     [flag_String ''address'' ''localhost:34443'' ''server address'' (\<lambda>v c. c\<lparr>var_address := v\<rparr>),
      flag_String ''ca-cert'' ''cert.pem'' ''CA certificate'' (\<lambda>v c. c\<lparr>var_caCertFn := v\<rparr>)]"

definition client_usage :: "string \<Rightarrow> string" where
  "client_usage prog = chores_usage prog client_flags"

definition client_defaults :: client_vars where
  "client_defaults = \<lparr>var_address = ''localhost:34443'', var_caCertFn = ''cert.pem''\<rparr>"

definition client_program ::
  "(string \<Rightarrow> byte list result) \<Rightarrow> (byte list \<Rightarrow> 'pool option) \<Rightarrow>
   (string \<Rightarrow> (unit, 'pool) h2_config \<Rightarrow> 's conn result) \<Rightarrow> string \<Rightarrow> string list \<Rightarrow> 's \<Rightarrow>
   ('s \<times> string \<times> go_error option) program_run" where
  "client_program read_file append_certs dial prog argv s =
     run_program client_flags client_defaults (client_usage prog)
       (\<lambda>c args. client_main read_file append_certs dial (var_address c) (var_caCertFn c) args s) argv"

subsection \<open>The tools\<close>

text \<open>
  port.go: what is printed before the first attempt, the attempts, and the end.  The first line of its
  usage goes to standard output with \<open>os.Args[0]\<close> as it is, the flags to standard error.  \<open>dial\<close> gives
  the results of the successive attempts for a target and a time-out.
\<close>

record port_vars =
  var_count :: int
  var_interval :: duration
  var_timeout :: duration

definition port_flags :: "(string \<Rightarrow> int result) \<Rightarrow> (string \<Rightarrow> duration result) \<Rightarrow> port_vars flag_def list" where
  "port_flags parse_int parse_duration =
     [flag_Value ''int'' parse_int ''c'' ''3'' ''number of pings: <= 0 means forever'' (\<lambda>v c. c\<lparr>var_count := v\<rparr>),
      flag_Value ''duration'' parse_duration ''i'' ''1s'' ''interval between pings'' (\<lambda>v c. c\<lparr>var_interval := v\<rparr>),
      flag_Value ''duration'' parse_duration ''W'' ''5s'' ''time to wait for a reply'' (\<lambda>v c. c\<lparr>var_timeout := v\<rparr>)]"

definition port_defaults :: port_vars where
  "port_defaults = \<lparr>var_count = 3, var_interval = second, var_timeout = 5 * second\<rparr>"

definition port_usage :: "string \<Rightarrow> 'c flag_def list \<Rightarrow> string \<times> string" where
  "port_usage prog fs =
     (''Usage: '' @ prog @ '' [options] host:port'' @ [CHR 0x0A] @ ''Options:'' @ [CHR 0x0A], PrintDefaults fs)"

definition port_header :: "int \<Rightarrow> string list \<Rightarrow> string" where
  "port_header n args =
     (if length args \<noteq> 1 then ''host:port is required'' @ [CHR 0x0A, CHR 0x0A]
      else ''PING '' @ hd args @ [CHR 0x0A] @
        (if n \<le> 0 then ''CTRL+C to stop.'' @ [CHR 0x0A] else []))"

definition port_program ::
  "(string \<Rightarrow> int result) \<Rightarrow> (string \<Rightarrow> duration result) \<Rightarrow> (string \<Rightarrow> duration \<Rightarrow> dial_result list) \<Rightarrow>
   string \<Rightarrow> string list \<Rightarrow> (string \<times> (int \<times> bool) list \<times> port_exit) program_run" where
  "port_program parse_int parse_duration dial prog argv =
     (let fs = port_flags parse_int parse_duration; usage = port_usage prog fs in
      run_program fs port_defaults (fst usage @ snd usage)
        (\<lambda>c args.
           (port_header (var_count c) args @ (if length args \<noteq> 1 then fst usage @ snd usage else []),
            port_main args (var_count c) (dial (flag_Arg 0 args) (var_timeout c)))) argv)"

record cert_vars =
  var_host :: string
  var_cert :: string
  var_key :: string
  var_org :: string

definition cert_flags :: "cert_vars flag_def list" where
  "cert_flags =
     [flag_String ''host'' ''localhost'' ''Certificate's comma-separated host names and IPs'' (\<lambda>v c. c\<lparr>var_host := v\<rparr>),
      flag_String ''cert'' ''clientcert.pem'' ''certificate file name'' (\<lambda>v c. c\<lparr>var_cert := v\<rparr>),
      flag_String ''key'' ''clientkey.pem'' ''private key file name'' (\<lambda>v c. c\<lparr>var_key := v\<rparr>),
      flag_String ''org'' ''cloudarmin'' ''organization name'' (\<lambda>v c. c\<lparr>var_org := v\<rparr>)]"

definition cert_defaults :: cert_vars where
  "cert_defaults = \<lparr>var_host = ''localhost'', var_cert = ''clientcert.pem'', var_key = ''clientkey.pem'', var_org = ''cloudarmin''\<rparr>"

definition cert_program ::
  "('ip, 'k) cert_env \<Rightarrow> string \<Rightarrow> string list \<Rightarrow> ((string \<times> byte list) list \<times> go_error option) program_run" where
  "cert_program env prog argv =
     run_program cert_flags cert_defaults (default_Usage prog cert_flags)
       (\<lambda>c args. cert_main env (var_host c) (var_cert c) (var_key c) (var_org c)) argv"

record tftp_vars =
  var_tftp_address :: string
  var_payload :: string

definition tftp_flags :: "tftp_vars flag_def list" where
  "tftp_flags =
     [flag_String ''a'' ''127.0.0.1:69'' ''listen address'' (\<lambda>v c. c\<lparr>var_tftp_address := v\<rparr>),
      flag_String ''p'' ''P.jpeg'' ''file to serve to clients'' (\<lambda>v c. c\<lparr>var_payload := v\<rparr>)]"

definition tftp_defaults :: tftp_vars where
  "tftp_defaults = \<lparr>var_tftp_address = ''127.0.0.1:69'', var_payload = ''P.jpeg''\<rparr>"

definition tftp_program ::
  "(string \<Rightarrow> byte list result) \<Rightarrow> (string \<Rightarrow> from_result list result) \<Rightarrow> string \<Rightarrow> string list \<Rightarrow>
   (Server option \<times> (string \<times> ReadReq) list \<times> go_error option) program_run" where
  "tftp_program read_file listen prog argv =
     run_program tftp_flags tftp_defaults (default_Usage prog tftp_flags)
       (\<lambda>c args. tftp_main (read_file (var_payload c)) (listen (var_tftp_address c))) argv"

subsection \<open>The web programs\<close>

record push_vars =
  var_listen :: string
  var_push_cert :: string
  var_pkey :: string
  var_files :: string

definition push_flags :: "push_vars flag_def list" where
  "push_flags =
     [flag_String ''listen'' ''127.0.0.1:8080'' ''listen address'' (\<lambda>v c. c\<lparr>var_listen := v\<rparr>),
      flag_String ''cert'' ''example.com+5.pem'' ''certificate'' (\<lambda>v c. c\<lparr>var_push_cert := v\<rparr>),
      flag_String ''key'' ''example.com+5-key.pem'' ''private key'' (\<lambda>v c. c\<lparr>var_pkey := v\<rparr>),
      flag_String ''files'' ''./files'' ''static file directory'' (\<lambda>v c. c\<lparr>var_files := v\<rparr>)]"

definition push_defaults :: push_vars where
  "push_defaults = \<lparr>var_listen = ''127.0.0.1:8080'', var_push_cert = ''example.com+5.pem'',
     var_pkey = ''example.com+5-key.pem'', var_files = ''./files''\<rparr>"

text \<open>
  What a web program does with its command line: the server it configures, how it listens, the
  directory it serves, and how it ends for given events.
\<close>

definition push_program ::
  "(go_error \<Rightarrow> string) \<Rightarrow> run_event list \<Rightarrow> string \<Rightarrow> string list \<Rightarrow>
   (server_config \<times> listen_call \<times> string \<times> (nat \<times> string) option) program_run" where
  "push_program show_err evs prog argv =
     run_program push_flags push_defaults (default_Usage prog push_flags)
       (\<lambda>c args. (push_config (var_listen c), push_listen (var_push_cert c) (var_pkey c), var_files c,
                  push_main show_err evs)) argv"

definition backend_flags :: "string flag_def list" where
  "backend_flags = [flag_String ''listen'' ''localhost:8080'' ''listen address'' (\<lambda>v c. v)]"

definition backend_program ::
  "(go_error \<Rightarrow> string) \<Rightarrow> run_event list \<Rightarrow> string \<Rightarrow> string list \<Rightarrow>
   (server_config \<times> (nat \<times> string) option) program_run" where
  "backend_program show_err evs prog argv =
     run_program backend_flags ''localhost:8080'' (default_Usage prog backend_flags)
       (\<lambda>c args. (backend_config c, backend_main show_err evs)) argv"

record instrument_vars =
  var_metrics :: string
  var_web :: string
  var_metric_flags :: metric_flags

definition instrument_flags :: "instrument_vars flag_def list" where
  "instrument_flags =
     [flag_String ''namespace'' ''web'' ''metrics namespace''
        (\<lambda>v c. c\<lparr>var_metric_flags := var_metric_flags c\<lparr>Namespace := v\<rparr>\<rparr>),
      flag_String ''subsystem'' ''server1'' ''metrics subsystem''
        (\<lambda>v c. c\<lparr>var_metric_flags := var_metric_flags c\<lparr>Subsystem := v\<rparr>\<rparr>),
      flag_String ''metrics'' ''127.0.0.1:8081'' ''metrics listen address'' (\<lambda>v c. c\<lparr>var_metrics := v\<rparr>),
      flag_String ''web'' ''127.0.0.1:8082'' ''web listen address'' (\<lambda>v c. c\<lparr>var_web := v\<rparr>)]"

definition instrument_defaults :: instrument_vars where
  "instrument_defaults = \<lparr>var_metrics = ''127.0.0.1:8081'', var_web = ''127.0.0.1:8082'', var_metric_flags = default_flags\<rparr>"

definition instrument_program ::
  "('c, 'g, 'h) kit \<Rightarrow> (string \<Rightarrow> unit result) \<Rightarrow> (('c, 'g, 'h) metrics \<Rightarrow> string result) \<Rightarrow> load \<Rightarrow>
   ('c, 'g, 'h) metrics \<Rightarrow> string \<Rightarrow> string list \<Rightarrow>
   (('c, 'g, 'h) metrics \<times> string list \<times> go_error option) program_run" where
  "instrument_program K listen page ls m prog argv =
     run_program instrument_flags instrument_defaults (default_Usage prog instrument_flags)
       (\<lambda>c args. instrument_main K listen page (var_metrics c) (var_web c)
          (Namespace (var_metric_flags c)) (Subsystem (var_metric_flags c)) ls m) argv"

subsection \<open>Reading the command line back\<close>

text \<open>The value of a flag on a command line: the last one given, or the default.\<close>

fun setting :: "(string \<times> string) list \<Rightarrow> string \<Rightarrow> string \<Rightarrow> string" where
  "setting [] n d = d"
| "setting ((m, v) # ss) n d = setting ss n (if m = n then v else d)"

definition known_flags :: "'c flag_def list \<Rightarrow> (flag_form \<times> string \<times> string) list \<Rightarrow> bool" where
  "known_flags fs ss \<longleftrightarrow> (\<forall>(form, n, v)\<in>set ss. n \<in> fl_name ` set fs)"

definition plain_args :: "string list \<Rightarrow> bool" where
  "plain_args args \<longleftrightarrow> args = [] \<or> \<not> flag_like (hd args)"

lemma run_command_line:
  assumes "known_flags fs ss" "plain_args args" "\<forall>f\<in>set fs. flag_name_ok (fl_name f)"
  shows "set_flags fs (map snd ss) c = Inr c' \<Longrightarrow> run_program fs c usage run (command_line ss args) = Ran (run c' args)"
    and "set_flags fs (map snd ss) c = Inl err \<Longrightarrow> run_program fs c usage run (command_line ss args) = BadCommandLine err usage"
proof -
  have "\<forall>(form, n, v)\<in>set ss. flag_name_ok n \<and> n \<in> fl_name ` set fs"
    using assms(1,3) by (auto simp: known_flags_def)
  then have "parse_flags fs c (command_line ss args) = map_sum id (\<lambda>c. (c, args)) (set_flags fs (map snd ss) c)"
    using assms(2) by (simp add: plain_args_def parse_command_line)
  then show "set_flags fs (map snd ss) c = Inr c' \<Longrightarrow> run_program fs c usage run (command_line ss args) = Ran (run c' args)"
    "set_flags fs (map snd ss) c = Inl err \<Longrightarrow> run_program fs c usage run (command_line ss args) = BadCommandLine err usage"
    by (simp_all add: run_program_def)
qed

lemma known_flags_Nil [simp]: "known_flags fs []"
  by (simp add: known_flags_def)

lemma known_flags_Cons [simp]:
  "known_flags fs (s # ss) \<longleftrightarrow> fst (snd s) \<in> fl_name ` set fs \<and> known_flags fs ss"
  by (cases s) (auto simp: known_flags_def)

lemma set_flag_String [simp]:
  "fl_name (flag_String n d u upd) = n" "set_flag (flag_String n d u upd) v c = Inr (upd v c)"
  by (simp_all add: flag_String_def set_flag_def)

lemma homework_settings:
  "known_flags homework_flags ss \<Longrightarrow> set_flags homework_flags (map snd ss) c =
     Inr \<lparr>var_dataFile = setting (map snd ss) ''file'' (var_dataFile c)\<rparr>"
  by (induction ss arbitrary: c) (auto simp: homework_flags_def)

lemma server_settings:
  "known_flags server_flags ss \<Longrightarrow> set_flags server_flags (map snd ss) c =
     Inr \<lparr>var_addr = setting (map snd ss) ''address'' (var_addr c),
       var_certFn = setting (map snd ss) ''cert'' (var_certFn c),
       var_keyFn = setting (map snd ss) ''key'' (var_keyFn c)\<rparr>"
  by (induction ss arbitrary: c) (auto simp: server_flags_def)

lemma client_settings:
  "known_flags client_flags ss \<Longrightarrow> set_flags client_flags (map snd ss) c =
     Inr \<lparr>var_address = setting (map snd ss) ''address'' (var_address c),
       var_caCertFn = setting (map snd ss) ''ca-cert'' (var_caCertFn c)\<rparr>"
  by (induction ss arbitrary: c) (auto simp: client_flags_def)

lemma cert_settings:
  "known_flags cert_flags ss \<Longrightarrow> set_flags cert_flags (map snd ss) c =
     Inr \<lparr>var_host = setting (map snd ss) ''host'' (var_host c), var_cert = setting (map snd ss) ''cert'' (var_cert c),
       var_key = setting (map snd ss) ''key'' (var_key c), var_org = setting (map snd ss) ''org'' (var_org c)\<rparr>"
  by (induction ss arbitrary: c) (auto simp: cert_flags_def)

lemma tftp_settings:
  "known_flags tftp_flags ss \<Longrightarrow> set_flags tftp_flags (map snd ss) c =
     Inr \<lparr>var_tftp_address = setting (map snd ss) ''a'' (var_tftp_address c),
       var_payload = setting (map snd ss) ''p'' (var_payload c)\<rparr>"
  by (induction ss arbitrary: c) (auto simp: tftp_flags_def)

lemma push_settings:
  "known_flags push_flags ss \<Longrightarrow> set_flags push_flags (map snd ss) c =
     Inr \<lparr>var_listen = setting (map snd ss) ''listen'' (var_listen c),
       var_push_cert = setting (map snd ss) ''cert'' (var_push_cert c),
       var_pkey = setting (map snd ss) ''key'' (var_pkey c), var_files = setting (map snd ss) ''files'' (var_files c)\<rparr>"
  by (induction ss arbitrary: c) (auto simp: push_flags_def)

lemma backend_settings:
  "known_flags backend_flags ss \<Longrightarrow> set_flags backend_flags (map snd ss) c =
     Inr (setting (map snd ss) ''listen'' c)"
  by (induction ss arbitrary: c) (auto simp: backend_flags_def)

lemma instrument_settings:
  "known_flags instrument_flags ss \<Longrightarrow> set_flags instrument_flags (map snd ss) c =
     Inr \<lparr>var_metrics = setting (map snd ss) ''metrics'' (var_metrics c), var_web = setting (map snd ss) ''web'' (var_web c),
       var_metric_flags = \<lparr>Namespace = setting (map snd ss) ''namespace'' (Namespace (var_metric_flags c)),
         Subsystem = setting (map snd ss) ''subsystem'' (Subsystem (var_metric_flags c))\<rparr>\<rparr>"
  by (induction ss arbitrary: c) (auto simp: instrument_flags_def)

text \<open>
  The flags of port.go are numbers and durations: a value that cannot be read ends the program, and
  otherwise the last value is read.
\<close>

definition port_value_ok :: "(string \<Rightarrow> int result) \<Rightarrow> (string \<Rightarrow> duration result) \<Rightarrow> string \<times> string \<Rightarrow> bool" where
  "port_value_ok parse_int parse_duration s \<longleftrightarrow>
     (if fst s = ''c'' then \<not> isl (parse_int (snd s)) else \<not> isl (parse_duration (snd s)))"

fun parsed_setting :: "(string \<Rightarrow> 'a result) \<Rightarrow> (string \<times> string) list \<Rightarrow> string \<Rightarrow> 'a \<Rightarrow> 'a" where
  "parsed_setting parse [] n d = d"
| "parsed_setting parse ((m, v) # ss) n d = parsed_setting parse ss n (if m = n then projr (parse v) else d)"

lemma set_flag_Value [simp]:
  "fl_name (flag_Value t p n d u upd) = n"
  "set_flag (flag_Value t p n d u upd) v c = (case p v of Inl e \<Rightarrow> Inl (InvalidValue v n e) | Inr x \<Rightarrow> Inr (upd x c))"
  by (auto simp: flag_Value_def set_flag_def split: sum.split)

lemma port_settings:
  assumes "known_flags (port_flags p_int p_dur) ss" "list_all (port_value_ok p_int p_dur) (map snd ss)"
  shows "set_flags (port_flags p_int p_dur) (map snd ss) c =
     Inr \<lparr>var_count = parsed_setting p_int (map snd ss) ''c'' (var_count c),
       var_interval = parsed_setting p_dur (map snd ss) ''i'' (var_interval c),
       var_timeout = parsed_setting p_dur (map snd ss) ''W'' (var_timeout c)\<rparr>"
  using assms
  by (induction ss arbitrary: c) (auto simp: port_flags_def port_value_ok_def isl_def split: sum.splits if_splits)

lemma port_step:
  assumes "n \<in> fl_name ` set (port_flags p_int p_dur)"
  shows "port_value_ok p_int p_dur (n, v) \<Longrightarrow>
      \<exists>c'. set_flags (port_flags p_int p_dur) ((n, v) # ss) c = set_flags (port_flags p_int p_dur) ss c'"
    and "\<not> port_value_ok p_int p_dur (n, v) \<Longrightarrow>
      \<exists>err. set_flags (port_flags p_int p_dur) ((n, v) # ss) c = Inl (InvalidValue v n err)"
proof -
  obtain f where f: "find (\<lambda>f. fl_name f = n) (port_flags p_int p_dur) = Some f"
    "set_flag f v c =
      (if n = ''c'' then (case p_int v of Inl e \<Rightarrow> Inl (InvalidValue v n e) | Inr x \<Rightarrow> Inr (c\<lparr>var_count := x\<rparr>))
       else (case p_dur v of
               Inl e \<Rightarrow> Inl (InvalidValue v n e)
             | Inr x \<Rightarrow> Inr (if n = ''i'' then c\<lparr>var_interval := x\<rparr> else c\<lparr>var_timeout := x\<rparr>)))"
    using assms by (auto simp: port_flags_def split: sum.split)
  show "\<exists>c'. set_flags (port_flags p_int p_dur) ((n, v) # ss) c = set_flags (port_flags p_int p_dur) ss c'"
    if "port_value_ok p_int p_dur (n, v)"
    using that f by (cases "n = ''c''"; cases "p_int v"; cases "p_dur v") (auto simp: port_value_ok_def)
  show "\<exists>err. set_flags (port_flags p_int p_dur) ((n, v) # ss) c = Inl (InvalidValue v n err)"
    if "\<not> port_value_ok p_int p_dur (n, v)"
    using that f by (cases "n = ''c''"; cases "p_int v"; cases "p_dur v") (auto simp: port_value_ok_def)
qed

lemma port_bad_setting:
  assumes "known_flags (port_flags p_int p_dur) ss" "\<not> list_all (port_value_ok p_int p_dur) (map snd ss)"
  shows "\<exists>n v err. (n, v) \<in> set (map snd ss) \<and> \<not> port_value_ok p_int p_dur (n, v) \<and>
    set_flags (port_flags p_int p_dur) (map snd ss) c = Inl (InvalidValue v n err)"
  using assms
proof (induction ss arbitrary: c)
  case Nil
  then show ?case by simp
next
  case (Cons s ss)
  obtain form n v where s: "s = (form, n, v)" by (metis prod_cases3)
  then have n: "n \<in> fl_name ` set (port_flags p_int p_dur)" using Cons.prems(1) by simp
  show ?case
  proof (cases "port_value_ok p_int p_dur (n, v)")
    case True
    then obtain c' where c': "set_flags (port_flags p_int p_dur) (map snd (s # ss)) c =
        set_flags (port_flags p_int p_dur) (map snd ss) c'"
      using port_step(1) [OF n True, of "map snd ss" c] by (auto simp: s simp del: set_flags.simps)
    have "known_flags (port_flags p_int p_dur) ss" "\<not> list_all (port_value_ok p_int p_dur) (map snd ss)"
      using Cons.prems True by (simp_all add: s)
    from Cons.IH [OF this, of c'] show ?thesis unfolding c' by auto
  next
    case False
    with port_step(2) [OF n False, of "map snd ss" c] show ?thesis by (auto simp: s simp del: set_flags.simps)
  qed
qed

lemma flag_names_ok:
  "\<forall>f\<in>set homework_flags. flag_name_ok (fl_name f)" "\<forall>f\<in>set server_flags. flag_name_ok (fl_name f)"
  "\<forall>f\<in>set client_flags. flag_name_ok (fl_name f)" "\<forall>f\<in>set cert_flags. flag_name_ok (fl_name f)"
  "\<forall>f\<in>set tftp_flags. flag_name_ok (fl_name f)" "\<forall>f\<in>set push_flags. flag_name_ok (fl_name f)"
  "\<forall>f\<in>set backend_flags. flag_name_ok (fl_name f)" "\<forall>f\<in>set instrument_flags. flag_name_ok (fl_name f)"
  "\<forall>f\<in>set (port_flags p_int p_dur). flag_name_ok (fl_name f)"
  by (simp_all add: homework_flags_def server_flags_def client_flags_def cert_flags_def tftp_flags_def
      push_flags_def backend_flags_def instrument_flags_def port_flags_def flag_name_ok_def)

text \<open>Each program on a command line that sets flags it has.\<close>

lemma homework_runs:
  assumes "known_flags homework_flags ss" "plain_args args"
  shows "homework_program st prog (command_line ss args) files =
    (let f = setting (map snd ss) ''file'' ''housework.db''; r = main st args (files f) in
     Ran (files(f := fst r), snd r))"
  unfolding homework_program_def run_command_line(1) [OF assms flag_names_ok(1) homework_settings [OF assms(1)]]
  by (simp add: homework_defaults_def Let_def case_prod_beta)

lemma server_runs:
  assumes "known_flags server_flags ss" "plain_args args"
  shows "server_program show_err load_pair listen serve prog (command_line ss args) =
    Ran (server_main show_err load_pair listen serve (setting (map snd ss) ''address'' ''localhost:34443'')
      (setting (map snd ss) ''cert'' ''serverCert.pem'') (setting (map snd ss) ''key'' ''serverKey.pem''))"
  unfolding server_program_def run_command_line(1) [OF assms flag_names_ok(2) server_settings [OF assms(1)]]
  by (simp add: server_defaults_def)

lemma client_runs:
  assumes "known_flags client_flags ss" "plain_args args"
  shows "client_program read_file append_certs dial prog (command_line ss args) s =
    Ran (client_main read_file append_certs dial (setting (map snd ss) ''address'' ''localhost:34443'')
      (setting (map snd ss) ''ca-cert'' ''cert.pem'') args s)"
  unfolding client_program_def run_command_line(1) [OF assms flag_names_ok(3) client_settings [OF assms(1)]]
  by (simp add: client_defaults_def)

lemma cert_runs:
  assumes "known_flags cert_flags ss" "plain_args args"
  shows "cert_program env prog (command_line ss args) =
    Ran (cert_main env (setting (map snd ss) ''host'' ''localhost'') (setting (map snd ss) ''cert'' ''clientcert.pem'')
      (setting (map snd ss) ''key'' ''clientkey.pem'') (setting (map snd ss) ''org'' ''cloudarmin''))"
  unfolding cert_program_def run_command_line(1) [OF assms flag_names_ok(4) cert_settings [OF assms(1)]]
  by (simp add: cert_defaults_def)

lemma tftp_runs:
  assumes "known_flags tftp_flags ss" "plain_args args"
  shows "tftp_program read_file net prog (command_line ss args) =
    Ran (tftp_main (read_file (setting (map snd ss) ''p'' ''P.jpeg'')) (net (setting (map snd ss) ''a'' ''127.0.0.1:69'')))"
  unfolding tftp_program_def run_command_line(1) [OF assms flag_names_ok(5) tftp_settings [OF assms(1)]]
  by (simp add: tftp_defaults_def)

lemma push_runs:
  assumes "known_flags push_flags ss" "plain_args args"
  shows "push_program show_err evs prog (command_line ss args) =
    Ran (push_config (setting (map snd ss) ''listen'' ''127.0.0.1:8080''),
      push_listen (setting (map snd ss) ''cert'' ''example.com+5.pem'') (setting (map snd ss) ''key'' ''example.com+5-key.pem''),
      setting (map snd ss) ''files'' ''./files'', push_main show_err evs)"
  unfolding push_program_def run_command_line(1) [OF assms flag_names_ok(6) push_settings [OF assms(1)]]
  by (simp add: push_defaults_def)

lemma backend_runs:
  assumes "known_flags backend_flags ss" "plain_args args"
  shows "backend_program show_err evs prog (command_line ss args) =
    Ran (backend_config (setting (map snd ss) ''listen'' ''localhost:8080''), backend_main show_err evs)"
  unfolding backend_program_def run_command_line(1) [OF assms flag_names_ok(7) backend_settings [OF assms(1)]]
  by simp

lemma instrument_runs:
  assumes "known_flags instrument_flags ss" "plain_args args"
  shows "instrument_program K listen page ls m prog (command_line ss args) =
    Ran (instrument_main K listen page (setting (map snd ss) ''metrics'' ''127.0.0.1:8081'')
      (setting (map snd ss) ''web'' ''127.0.0.1:8082'') (setting (map snd ss) ''namespace'' ''web'')
      (setting (map snd ss) ''subsystem'' ''server1'') ls m)"
  unfolding instrument_program_def run_command_line(1) [OF assms flag_names_ok(8) instrument_settings [OF assms(1)]]
  by (simp add: instrument_defaults_def default_flags_def)

lemma port_runs:
  assumes "known_flags (port_flags p_int p_dur) ss" "plain_args args"
  shows "list_all (port_value_ok p_int p_dur) (map snd ss) \<Longrightarrow>
      port_program p_int p_dur dial prog (command_line ss args) =
        (let n = parsed_setting p_int (map snd ss) ''c'' 3; usage = port_usage prog (port_flags p_int p_dur) in
         Ran (port_header n args @ (if length args \<noteq> 1 then fst usage @ snd usage else []),
           port_main args n (dial (flag_Arg 0 args) (parsed_setting p_dur (map snd ss) ''W'' (5 * second)))))"
    and "\<not> list_all (port_value_ok p_int p_dur) (map snd ss) \<Longrightarrow>
      \<exists>n v err. (n, v) \<in> set (map snd ss) \<and> \<not> port_value_ok p_int p_dur (n, v) \<and>
        port_program p_int p_dur dial prog (command_line ss args) =
          (let usage = port_usage prog (port_flags p_int p_dur) in BadCommandLine (InvalidValue v n err) (fst usage @ snd usage))"
proof -
  note run = run_command_line [OF assms flag_names_ok(9)]
  show "port_program p_int p_dur dial prog (command_line ss args) =
        (let n = parsed_setting p_int (map snd ss) ''c'' 3; usage = port_usage prog (port_flags p_int p_dur) in
         Ran (port_header n args @ (if length args \<noteq> 1 then fst usage @ snd usage else []),
           port_main args n (dial (flag_Arg 0 args) (parsed_setting p_dur (map snd ss) ''W'' (5 * second)))))"
    if "list_all (port_value_ok p_int p_dur) (map snd ss)"
    unfolding port_program_def Let_def run(1) [OF port_settings [OF assms(1) that]] by (simp add: port_defaults_def)
  show "\<exists>n v err. (n, v) \<in> set (map snd ss) \<and> \<not> port_value_ok p_int p_dur (n, v) \<and>
        port_program p_int p_dur dial prog (command_line ss args) =
          (let usage = port_usage prog (port_flags p_int p_dur) in BadCommandLine (InvalidValue v n err) (fst usage @ snd usage))"
    if bad_value: "\<not> list_all (port_value_ok p_int p_dur) (map snd ss)"
  proof -
    obtain n v err where bad: "(n, v) \<in> set (map snd ss)" "\<not> port_value_ok p_int p_dur (n, v)"
      "set_flags (port_flags p_int p_dur) (map snd ss) port_defaults = Inl (InvalidValue v n err)"
      using port_bad_setting [OF assms(1) bad_value] by blast
    then show ?thesis
      by (intro exI [of _ n] exI [of _ v] exI [of _ err]) (simp add: port_program_def Let_def run(2) [OF bad(3)])
  qed
qed

text \<open>
  C33: However a command line is written, with one dash or two and with the value joined or apart, in
  any order and with repetitions, each of the nine programs that read flags runs with the last value
  given for each flag, the default for the others, and the arguments that follow: the two chore
  programs and the service, port.go, cert.go, the TFTP server, push.go, backend.go and the
  instrumented server, whose namespace and subsystem go to its report, not to the metrics \<open>m\<close>.
  port.go reads its values as a number and as durations (the interval between pings does not show
  in what it prints); one that cannot be read ends it with the usage, and nothing is dialled.  With
  a flag it does not know, the command-line chore program does nothing.
\<close>

theorem programs_read_flags:
  assumes "plain_args args" and "v = setting (map snd ss)"
  shows "(known_flags homework_flags ss \<longrightarrow>
       homework_program st prog (command_line ss args) files =
         (let f = v ''file'' ''housework.db''; r = main st args (files f) in Ran (files(f := fst r), snd r))) \<and>
    (known_flags server_flags ss \<longrightarrow>
       server_program show_err load_pair listen serve prog (command_line ss args) =
         Ran (server_main show_err load_pair listen serve (v ''address'' ''localhost:34443'')
           (v ''cert'' ''serverCert.pem'') (v ''key'' ''serverKey.pem''))) \<and>
    (known_flags client_flags ss \<longrightarrow>
       client_program read_file append_certs dial prog (command_line ss args) s =
         Ran (client_main read_file append_certs dial (v ''address'' ''localhost:34443'') (v ''ca-cert'' ''cert.pem'') args s)) \<and>
    (known_flags (port_flags p_int p_dur) ss \<longrightarrow>
       (let usage = port_usage prog (port_flags p_int p_dur) in
        if list_all (port_value_ok p_int p_dur) (map snd ss) then
          port_program p_int p_dur tcp_dial prog (command_line ss args) =
            (let n = parsed_setting p_int (map snd ss) ''c'' 3 in
             Ran (port_header n args @ (if length args \<noteq> 1 then fst usage @ snd usage else []),
               port_main args n (tcp_dial (flag_Arg 0 args) (parsed_setting p_dur (map snd ss) ''W'' (5 * second)))))
        else \<exists>n v err. (n, v) \<in> set (map snd ss) \<and> \<not> port_value_ok p_int p_dur (n, v) \<and>
          port_program p_int p_dur tcp_dial prog (command_line ss args) =
            BadCommandLine (InvalidValue v n err) (fst usage @ snd usage))) \<and>
    (known_flags cert_flags ss \<longrightarrow>
       cert_program env prog (command_line ss args) =
         Ran (cert_main env (v ''host'' ''localhost'') (v ''cert'' ''clientcert.pem'')
           (v ''key'' ''clientkey.pem'') (v ''org'' ''cloudarmin''))) \<and>
    (known_flags tftp_flags ss \<longrightarrow>
       tftp_program read_file net prog (command_line ss args) =
         Ran (tftp_main (read_file (v ''p'' ''P.jpeg'')) (net (v ''a'' ''127.0.0.1:69'')))) \<and>
    (known_flags push_flags ss \<longrightarrow>
       push_program show_err evs prog (command_line ss args) =
         Ran (push_config (v ''listen'' ''127.0.0.1:8080''),
           push_listen (v ''cert'' ''example.com+5.pem'') (v ''key'' ''example.com+5-key.pem''),
           v ''files'' ''./files'', push_main show_err evs)) \<and>
    (known_flags backend_flags ss \<longrightarrow>
       backend_program show_err evs prog (command_line ss args) =
         Ran (backend_config (v ''listen'' ''localhost:8080''), backend_main show_err evs)) \<and>
    (known_flags instrument_flags ss \<longrightarrow>
       instrument_program K web_listen page ls m prog (command_line ss args) =
         Ran (instrument_main K web_listen page (v ''metrics'' ''127.0.0.1:8081'') (v ''web'' ''127.0.0.1:8082'')
           (v ''namespace'' ''web'') (v ''subsystem'' ''server1'') ls m)) \<and>
    (flag_name_ok n \<and> n \<notin> {''file'', ''help'', ''h''} \<longrightarrow>
       homework_program st prog ((CHR ''-'' # n) # rest) files =
         BadCommandLine (NotDefined n) (chores_usage prog homework_flags))"
proof (intro conjI)
  show "flag_name_ok n \<and> n \<notin> {''file'', ''help'', ''h''} \<longrightarrow>
      homework_program st prog ((CHR ''-'' # n) # rest) files =
        BadCommandLine (NotDefined n) (chores_usage prog homework_flags)"
    using parse_unknown [of n homework_flags homework_defaults rest]
    by (simp add: homework_program_def run_program_def) (simp add: homework_flags_def)
  show "known_flags (port_flags p_int p_dur) ss \<longrightarrow>
       (let usage = port_usage prog (port_flags p_int p_dur) in
        if list_all (port_value_ok p_int p_dur) (map snd ss) then
          port_program p_int p_dur tcp_dial prog (command_line ss args) =
            (let n = parsed_setting p_int (map snd ss) ''c'' 3 in
             Ran (port_header n args @ (if length args \<noteq> 1 then fst usage @ snd usage else []),
               port_main args n (tcp_dial (flag_Arg 0 args) (parsed_setting p_dur (map snd ss) ''W'' (5 * second)))))
        else \<exists>n v err. (n, v) \<in> set (map snd ss) \<and> \<not> port_value_ok p_int p_dur (n, v) \<and>
          port_program p_int p_dur tcp_dial prog (command_line ss args) =
            BadCommandLine (InvalidValue v n err) (fst usage @ snd usage))"
    using port_runs [OF _ assms(1), of p_int p_dur ss tcp_dial prog] unfolding Let_def by metis
qed (use assms(1) in \<open>simp_all add: assms(2) homework_runs server_runs client_runs cert_runs tftp_runs push_runs
    backend_runs instrument_runs\<close>)

theorem programs_read_flags_witness:
  "homework_program toy_storage ''hw'' [''-file=a.db'', ''--file'', ''b.db''] (\<lambda>_. fresh_world) =
     Ran ((\<lambda>_. fresh_world)(''b.db'' := fst (main toy_storage [] fresh_world)), snd (main toy_storage [] fresh_world)) \<and>
   homework_program toy_storage ''hw'' [''-chores'', ''x''] (\<lambda>_. fresh_world) =
     BadCommandLine (NotDefined ''chores'') (chores_usage ''hw'' homework_flags)"
proof -
  let ?ss = "[(Form False True, ''file'', ''a.db''), (Form True False, ''file'', ''b.db'')]"
  have line: "command_line ?ss [] = [''-file=a.db'', ''--file'', ''b.db'']" by (simp add: command_line_def)
  have known: "known_flags homework_flags ?ss" by (simp add: known_flags_def homework_flags_def)
  have name: "flag_name_ok ''chores''" by (simp add: flag_name_ok_def)
  have "plain_args []" by (simp add: plain_args_def)
  note th = programs_read_flags [where st = toy_storage and prog = "''hw''" and files = "\<lambda>_. fresh_world"
      and n = "''chores''" and rest = "[''x'']", OF this refl, where ss = ?ss]
  have "homework_program toy_storage ''hw'' [''-chores'', ''x''] (\<lambda>_. fresh_world) =
      BadCommandLine (NotDefined ''chores'') (chores_usage ''hw'' homework_flags)"
    using th [THEN conjunct2, THEN conjunct2, THEN conjunct2, THEN conjunct2, THEN conjunct2, THEN conjunct2,
        THEN conjunct2, THEN conjunct2, THEN conjunct2, rule_format] name by simp
  then show ?thesis
    using th [THEN conjunct1, rule_format, OF known] unfolding line by (simp add: Let_def)
qed

subsection \<open>The chore service from its command lines\<close>

fun ran_state :: "('s \<times> 'a) program_run \<Rightarrow> 's \<Rightarrow> 's" where
  "ran_state (Ran (s, _)) _ = s"
| "ran_state (BadCommandLine _ _) s = s"

lemma client_program_runs:
  assumes "known_flags client_flags cs" "plain_args args"
    and "read_file (setting (map snd cs) ''ca-cert'' ''cert.pem'') = Inr pem" "append_certs pem = Some pool"
    and "dial (setting (map snd cs) ''address'' ''localhost:34443'') (client_config pool) = Inr cc"
  shows "client_program read_file append_certs dial prog (command_line cs args) s = Ran (rpc_main cc args s)"
  unfolding client_program_def
    run_command_line(1) [OF assms(1,2) flag_names_ok(3) client_settings [OF assms(1)]]
  using client_main_connected [where read_file = read_file and append_certs = append_certs and dial = dial, OF assms(3-5)] by (simp add: client_defaults_def)

text \<open>
  C5: The chore service from its command lines.  A server program whose key pair can be loaded and
  whose address can be listened on comes up with exactly that key pair; client programs that are given
  a readable certificate file and can dial act on the server's one list, each with the command that
  follows its flags: after any number of runs the list is what the specification computes, and the
  next run prints it.  Where a flag is missing both use the same address, but different certificate
  files.
\<close>

theorem service_from_command_lines:
  assumes "known_flags server_flags ss" and "known_flags client_flags cs"
    and "load_pair (setting (map snd ss) ''cert'' ''serverCert.pem'') (setting (map snd ss) ''key'' ''serverKey.pem'') = Inr cert"
    and "listen (setting (map snd ss) ''address'' ''localhost:34443'') = Inr ()"
    and "read_file (setting (map snd cs) ''ca-cert'' ''cert.pem'') = Inr pem" and "append_certs pem = Some pool"
    and "dial (setting (map snd cs) ''address'' ''localhost:34443'') (client_config pool) = Inr cc"
    and "rpc_law cc" and "\<forall>args\<in>set argss. plain_args args" and "\<forall>c\<in>set (commands_of argss). text_ok c"
  shows "\<exists>sv msg s'.
    server_program show_err load_pair listen serve prog (command_line ss []) = Ran (Some sv, msg) \<and>
    served_addr sv = setting (map snd ss) ''address'' ''localhost:34443'' \<and> Certificates (served_config sv) = [cert] \<and>
    (let run = (\<lambda>s args. ran_state (client_program read_file append_certs dial prog' (command_line cs args) s) s);
         s = foldl run (served_state sv) argss;
         chores = spec_run rpc_num (commands_of argss) [] in
     sys_chores s = chores \<and>
     client_program read_file append_certs dial prog' (command_line cs []) s =
       Ran (s', list_text ''You have nothing to do!'' chores, None))"
proof -
  have plain: "plain_args []" by (simp add: plain_args_def)
  obtain sv msg where main: "server_main show_err load_pair listen serve
      (setting (map snd ss) ''address'' ''localhost:34443'') (setting (map snd ss) ''cert'' ''serverCert.pem'')
      (setting (map snd ss) ''key'' ''serverKey.pem'') = (Some sv, msg)"
    and sv: "served_state sv = fresh_sys" "served_addr sv = setting (map snd ss) ''address'' ''localhost:34443''"
      "Certificates (served_config sv) = [cert]"
    using assms(3,4) by (auto simp: server_main_def Let_def)
  have server: "server_program show_err load_pair listen serve prog (command_line ss []) = Ran (Some sv, msg)"
    unfolding server_program_def
      run_command_line(1) [OF assms(1) plain flag_names_ok(2) server_settings [OF assms(1)]]
    using main by (simp add: server_defaults_def)
  note client = client_program_runs [where read_file = read_file and append_certs = append_certs and dial = dial,
      OF assms(2) _ assms(5-7)]
  have runs: "foldl (\<lambda>s args. ran_state (client_program read_file append_certs dial prog' (command_line cs args) s) s) s argss =
      client_session (rpc_main cc) argss s" for s
    using assms(9)
  proof (induction argss arbitrary: s)
    case (Cons args argss)
    obtain s1 out where "rpc_main cc args s = (s1, out)" by (metis prod.exhaust)
    with Cons client [of args] show ?case by (simp add: client_session_def)
  qed (simp add: client_session_def)
  have inv: "sys_inv fresh_sys" "sys_chores fresh_sys = []"
    using fresh_rpc_inv by (simp_all add: rpc_inv_def rpc_chores_def)
  note session = rpc_session [OF assms(8) inv(1) assms(10), unfolded inv(2)]
  have none: "command_of [] = None" by code_simp
  let ?s = "client_session (rpc_main cc) argss fresh_sys"
  have out: "rpc_main cc [] ?s =
      (fst (rpc_main cc [] ?s), list_text ''You have nothing to do!'' (spec_run rpc_num (commands_of argss) []), None)"
    using session none rpc_main_spec [OF assms(8) conjunct1 [OF session], of "[]"] by (simp add: prod_eq_iff)
  have "client_program read_file append_certs dial prog' (command_line cs []) ?s =
      Ran (fst (rpc_main cc [] ?s), list_text ''You have nothing to do!'' (spec_run rpc_num (commands_of argss) []), None)"
    unfolding client [OF plain] by (subst out) simp
  then show ?thesis
    using server sv(2,3) conjunct2 [OF session] unfolding Let_def
    by (intro exI [of _ sv] exI [of _ msg] exI [of _ "fst (rpc_main cc [] ?s)"] conjI) (simp_all only: runs sv(1))
qed

theorem service_from_command_lines_witness:
  "\<exists>sv msg s'. server_program error_text_id (\<lambda>c k. Inr ()) (\<lambda>a. Inr ()) (\<lambda>sv. EOF) ''server'' [''-address=h:1''] = (Ran (Some sv, msg)) \<and>
    served_addr sv = ''h:1'' \<and>
    client_program (\<lambda>f. Inr [1]) (\<lambda>pem. Some ()) (\<lambda>a cfg. Inr direct_conn) ''client'' [''--address'', ''h:1'']
      (foldl (\<lambda>s args. ran_state (client_program (\<lambda>f. Inr [1]) (\<lambda>pem. Some ()) (\<lambda>a cfg. Inr direct_conn) ''client''
          (''--address'' # ''h:1'' # args) s) s) (served_state sv) [[''add'', ''a,b''], [''complete'', ''2'']]) =
      Ran (s', list_text ''You have nothing to do!''
         [\<lparr>Complete = False, Description = ''a''\<rparr>, \<lparr>Complete = True, Description = ''b''\<rparr>], None)"
proof -
  let ?argss = "[[''add'', ''a,b''], [''complete'', ''2'']]"
  let ?ss = "[(Form False True, ''address'', ''h:1'')]" and ?cs = "[(Form True False, ''address'', ''h:1'')]"
  have c: "commands_of ?argss = [AddCmd ''a,b'', CompleteCmd ''2'']" by code_simp
  then have ok: "\<forall>c\<in>set (commands_of ?argss). text_ok c" using sample_commands(5) by simp
  have spec: "spec_run rpc_num (commands_of ?argss) [] =
      [\<lparr>Complete = False, Description = ''a''\<rparr>, \<lparr>Complete = True, Description = ''b''\<rparr>]"
    by (simp add: c sample_commands rpc_num_def mark_def)
  have lines: "command_line ?ss [] = [''-address=h:1'']" "command_line ?cs args = ''--address'' # ''h:1'' # args" for args
    by (simp_all add: command_line_def)
  have known: "known_flags server_flags ?ss" "known_flags client_flags ?cs"
    by (simp_all add: server_flags_def client_flags_def)
  have plain: "\<forall>args\<in>set ?argss. plain_args args" by (simp add: plain_args_def flag_like_def)
  have addr: "setting (map snd ?ss) ''address'' ''localhost:34443'' = ''h:1''" by simp
  show ?thesis
    using service_from_command_lines [where load_pair = "\<lambda>c k. Inr ()" and listen = "\<lambda>a. Inr ()" and
        read_file = "\<lambda>f. Inr [1]" and append_certs = "\<lambda>pem. Some ()" and dial = "\<lambda>a cfg. Inr direct_conn" and
        show_err = error_text_id and serve = "\<lambda>sv. EOF" and prog = "''server''" and prog' = "''client''",
        OF known refl refl refl refl refl direct_conn_law plain ok]
    unfolding Let_def spec lines addr by blast
qed

end
