(* ===== verification/Spec2Isabelle.thy ===== *)
theory Spec2Isabelle
  imports TftpServer Tlv Rosie Handlers Caddy Wide Monitor Heartbeat Echo Auth Metrics ZapExamples Port Push
    Deploy Programs
begin

text \<open>
  A verification library for networking-in-go, the programs of a book on network programming: TCP
  and UDP tools, a TFTP server, HTTP handlers and middleware, a TLS server and its certificates, a
  gRPC service with two clients, and logging and metrics code.  The chapters are separate programs;
  each has a theory of its own, named in the list, over a shared base.

  The base.  Prelude has Go's machine integers (words of their width), strings and byte slices
  (lists), errors (\<open>go_error\<close>, with \<open>None\<close> for nil) and results (\<open>go_error + 'a\<close>).  GoBinary, GoIO,
  GoStrings, GoHTTP and GoFlag model what the programs call of the standard library: encoding/binary
  and bytes.Buffer; readers that deliver their data in arbitrary pieces and writers that may fail
  after part of a write; strings and strconv; response writers, http.Error, HTML escaping,
  path.Clean and the escaped form of paths; the parsing of command lines.  Writers adds io.Copy.
  These definitions follow the documentation of the library and have no entry in the map.

  The components, with the code they model.

  \<^item> Tftp (chapter6/tftp.go): the four packet types with MarshalBinary and UnmarshalBinary; exact
    acceptance, round trips, and parsing into a reused buffer.  The interface \<open>front_codec\<close> of packets
    recognised from their front is interpreted on acknowledgments and errors.
  \<^item> TftpServer (chapter6/server.go, main.go): \<open>Serve\<close>, and \<open>handle\<close> with its two nested loops
    (\<open>send_loop\<close>, \<open>retry_loop\<close>, \<open>retry_body\<close>) over a list of what each attempt meets on the network.
    The specification is the list of the payload's blocks; the lemmas on \<open>copies\<close> refine the datagrams
    sent to it.  The last section of this theory puts client, \<open>Serve\<close> and \<open>handle\<close> together.
  \<^item> Tlv (chapter4/tlv.go): both payload types and decode, on readers that split their data anywhere;
    the interface \<open>tlv_payload\<close> is interpreted on both types.
  \<^item> Chores, Homework, Rosie, Deploy (chapter12): the chore list and its specification
    (\<open>spec_step\<close>), the command-line program with its three storage packages and a file system that may
    fail, the gRPC server with its mutex and shared messages, the generated stubs and handlers, the
    client, and both main functions.  The interface \<open>chore_store\<close> says that adding and completing do
    what the specification says; it is interpreted on the command-line program (\<open>cli\<close>) and on the
    client with its server (\<open>rpc\<close>).
  \<^item> Handlers (chapter9/handler.go, middleware.go and the operations of the module in
    caddy/caddy-restrict-prefix), Push (chapter9/push.go, chapter10/backend.go): handlers, the method
    multiplexer, the restriction of path prefixes, the site made of them with its routing on escaped
    paths, and how the two programs shut down.  That no request reaches a hidden file is stated as
    the agreement of two sites whose file servers differ in hidden files only.  Caddy (caddy-restrict-prefix, caddy-adapter): the module from its registration and a
    TOML configuration to its requests.
  \<^item> Wide (chapter13/wide.go): the recording response writer and its middleware; the interface
    \<open>response_writer\<close> of GoHTTP is interpreted on the server's writer (\<open>base\<close>) and on the recording one
    (\<open>wide\<close>).  The wrapped handler is any program of the writer's three methods.
  \<^item> Writers (chapter13/multi.go, level.go, chapter4/proxy.go): the sustained multi-writer and the
    loggers on it, and the two proxies.  Monitor (chapter4/monitor.go): the traffic monitor and its
    example.
  \<^item> Pinger (chapter3/ping.go): a step relation over the state of the timer, the pending resets and
    the context, with an invariant by rule induction; \<open>async\<close> selects the timers before Go 1.23.
    Heartbeat is the same loop with a clock: when the pings are written, and the example that drives
    them and prints what it receives.
  \<^item> Echo (chapter5/echo.go, chapter7/server.go, chapter11/server.go): the UDP, stream, datagram and
    TLS echo servers.
  \<^item> Auth (chapter7/auth.go), Cert (chapter11/cert.go), Port (chapter4/port.go and DialTimeout of
    chapter3/main.go): the peer check, the certificate program, the TCP ping.
  \<^item> Levels (chapter13/dynamic.go): the goroutine that makes the log level follow a file, and the
    example around it, whose steps interleave with the goroutine's.  ZapExamples (encoder.go,
    console.go, concurrent.go, sample.go, rotation.go): what the logging examples print.
  \<^item> Instrument, Metrics (chapter13/instrument): the handler, the connection callback and the load of
    the instrumented server; the metrics as they are registered, and the report.
  \<^item> Programs: every \<open>main\<close> that reads flags, from its command line.

  State and effects.  A method with a pointer receiver takes the receiver and returns it updated.
  What the environment does is an explicit list (attempts, datagrams, accepted connections, signals,
  file events) or a script of outcomes in the reader or writer; a list that ends means that the code
  is still waiting, so a theorem about all lists covers every prefix of every run.  Independent
  goroutines on separate connections are separate runs; where goroutines share state (the chore
  server, the timer, the signal handlers) they are steps on that state.

  Termination.  Every loop is a total function: structural on its list of events, or with a measure
  (\<open>send_loop\<close> on the attempts left, \<open>io_copy\<close> and the echo loops on what remains in the stream).  No
  fuel is used.  That the TFTP handler returns after \<open>Retries\<close> attempts per block is a property of
  its own, as are the places where the code waits for ever (\<open>Pinger.Stuck\<close>, \<open>BlockedOnReady\<close>,
  \<open>push_run\<close> without an interrupt, \<open>Ready\<close> after a failed start).

  Parameters.  Code outside the repository is an argument: the protobuf, JSON and gob encoders and
  Go's unspecified evaluation order (\<open>storage\<close>), gRPC's Invoke (\<open>rpc_law\<close>), crypto/tls and x509, the
  user database, net.Listen and net.Dial, multierr (\<open>multierr_law\<close>), go-kit's metrics (\<open>kit_laws\<close>),
  zap's loggers and cores (\<open>zap_laws\<close>, \<open>zap_logger_laws\<close>, \<open>zap_lib_laws\<close>), Caddy's JSON decoder, which
  may refuse a configuration (\<open>json_law\<close>), and the TOML parser, Prometheus' page (\<open>metrics_page\<close>), and
  the book's published copies of the handlers (nothing is supposed of them) and of RestrictPrefix
  (\<open>restrict_law\<close>) that push.go imports.
  Each law is documented behaviour, and a witness instantiates it with a concrete function.

  Simplifications.  A request of the instrumented server is one step (its counting, writing and
  observing are not interleaved with other requests), the example of ping.go is one schedule of its
  two goroutines, and the connection of the chore clients is an argument with a law rather than
  built from the methods that the server has registered.  Readers never deliver data together with
  an error.

  Not modelled: the reflection, registration and descriptor boilerplate of the generated protobuf
  file; how strconv.ParseInt and time.ParseDuration read the values of port.go's flags (arguments);
  log lines with times, sleeping, and measured durations other than those of Heartbeat and of the
  sampled log; the interface guards and the package clauses.  Coverage of the map counts only lines
  that a definition translates.
\<close>

section \<open>A TFTP session\<close>

text \<open>
  C3: A client that sends a well-formed read request to a server with a payload gets a handler of its
  own, started with the file name it asked for.  Whatever then happens on the network, the data of
  the datagrams the handler has sent is a prefix of the payload; if the handler reports success it is
  the payload; and if each block is acknowledged before the retries are used up, it does succeed.
\<close>

theorem tftp_session:
  assumes "srv_Payload s = Some P" and "ReadReq_MarshalBinary q = Inr pkt" and "length pkt \<le> DatagramSize"
    and "Filename q \<noteq> []" and "NUL \<notin> set (Filename q)"
    and "Mode q = [] \<or> to_lower (Mode q) = ''octet'' \<and> NUL \<notin> set (Mode q)"
    and "Serve s (Some (Datagram addr pkt # evs)) = (s', handlers, r)"
  shows "\<exists>q'. hd handlers = (addr, q') \<and> Filename q' = Filename q \<and>
    (\<forall>net out st. handle s' None net = (out, st) \<longrightarrow>
       prefix (reassemble (sent st)) P \<and> ((\<exists>b. out = SentBlocks b) \<longrightarrow> reassemble (sent st) = P)) \<and>
    (\<forall>lss. length lss = length (blocks P) \<and> fair_run (unat (Retries s')) 0 lss \<longrightarrow>
       (\<exists>b st. handle s' None (fair_events 0 lss) = (SentBlocks b, st) \<and> reassemble (sent st) = P))"
proof -
  let ?md = "if Mode q = [] then ''octet'' else Mode q" and ?q0 = "\<lparr>Filename = [], Mode = []\<rparr>"
  have s': "srv_Payload s' = Some P" and hs: "handlers = fst (serve_loop ?q0 (Datagram addr pkt # evs))"
    using assms(1,7) by (auto simp: Serve_def Let_def split: prod.splits)
  have pkt: "pkt = rrq_bytes (Filename q) ?md" using assms(2) by (simp add: ReadReq_Marshal_bytes)
  have "to_lower ''octet'' = ''octet''" "NUL \<notin> set ''octet''"
    by (simp_all add: to_lower_def to_lower_char_def NUL_def)
  then have md: "NUL \<notin> set ?md" "to_lower ?md = ''octet''" using assms(6) by (auto split: if_splits)
  have "ReadReq_UnmarshalBinary ?q0 (overlay pkt (replicate DatagramSize 0)) =
      (\<lparr>Filename = Filename q, Mode = ?md\<rparr>, None)"
    unfolding overlay_replicate [OF assms(3)] unfolding pkt
    using ReadReq_Unmarshal_bytes [OF assms(4,5) md] by (simp split del: if_split)
  then have hd: "hd handlers = (addr, \<lparr>Filename = Filename q, Mode = ?md\<rparr>)"
    unfolding hs by (simp add: Let_def split: prod.splits)
  have run: "prefix (reassemble (sent st)) P \<and> ((\<exists>b. out = SentBlocks b) \<longrightarrow> reassemble (sent st) = P)"
    if "handle s' None net = (out, st)" for net out st
    using reassemble_copies [OF handle_copies(1) [OF s' that]] prefix_concat_take [of _ "blocks P"]
    by (auto simp: concat_blocks)
  have "\<exists>b st. handle s' None (fair_events 0 lss) = (SentBlocks b, st) \<and> reassemble (sent st) = P"
    if "length lss = length (blocks P)" "fair_run (unat (Retries s')) 0 lss" for lss
  proof -
    have "\<exists>st. send_loop (unat (Retries s')) DatagramSize (init_hstate s') (fair_events 0 lss @ []) =
        (SentBlocks (Block (dataPkt (init_hstate s')) + of_nat (length lss)), st)"
      using send_loop_fair [of "init_hstate s'" P lss "unat (Retries s')" "[]"] s' that
      by (auto simp: DatagramSize_def)
    then have "\<exists>b st. handle s' None (fair_events 0 lss) = (SentBlocks b, st)" by (auto simp: handle_def)
    with run show ?thesis by blast
  qed
  with hd run show ?thesis by auto
qed

theorem tftp_session_witness:
  "\<exists>s' handlers r pkt q'. ReadReq_MarshalBinary \<lparr>Filename = ''a'', Mode = []\<rparr> = Inr pkt \<and>
    Serve sample_server (Some [Datagram ''c'' pkt]) = (s', handlers, r) \<and> hd handlers = (''c'', q') \<and>
    Filename q' = ''a''"
proof -
  let ?q = "\<lparr>Filename = ''a'', Mode = []\<rparr>"
  obtain pkt where p: "ReadReq_MarshalBinary ?q = Inr pkt" by (simp add: ReadReq_Marshal_bytes)
  then have l: "length pkt \<le> DatagramSize"
    by (auto simp: ReadReq_Marshal_bytes rrq_bytes_def DatagramSize_def put_be16_def)
  obtain s' hs r where s: "Serve sample_server (Some [Datagram ''c'' pkt]) = (s', hs, r)"
    by (metis prod_cases3)
  have "srv_Payload sample_server = Some [1, 2, 3]" by (simp add: sample_server_def)
  from tftp_session [OF this p l _ _ _ s] have "\<exists>q'. hd hs = (''c'', q') \<and> Filename q' = ''a''"
    by (auto simp: NUL_def)
  with p s show ?thesis by blast
qed

end
